theory Spec2Isabelle
  imports Complex_Main "HOL-Library.AList"
begin

section \<open>Values exchanged with tool servers\<close>

text \<open>
  Tool arguments and tool results are \<^verbatim>\<open>any\<close> in the source; they are modelled as JSON
  values. A \<^verbatim>\<open>ToolSet\<close> is an object from tool names to tool definitions; objects and
  JavaScript \<^verbatim>\<open>Map\<close>s are association lists in insertion order, written with
  \<^const>\<open>AList.update\<close> (\<^verbatim>\<open>set\<close>: an existing key keeps its place) and
  \<^const>\<open>AList.delete\<close>.
\<close>

datatype json =
    JNull
  | JBool bool
  | JNum int
  | JStr string
  | JArr "json list"
  | JObj "(string \<times> json) list"

datatype Tool = Tool (description: "string option") (parameters: json)

type_synonym ToolSet = "(string \<times> Tool) list"

text \<open>\<^verbatim>\<open>ToolErrorCode\<close> (error-codes.ts), and the codes of other scopes as one constructor.\<close>

datatype ErrorCode =
    EXECUTION_DENIED
  | EXECUTION_TIMEOUT
  | EXECUTION_FAILED
  | CONFIRMATION_HANDLER_MISSING
  | CONFIRMATION_TIMEOUT
  | CONFIRMATION_CANCELLED
  | TOOL_NOT_FOUND
  | TOOL_INVALID_ARGS
  | TOOL_UNAUTHORIZED
  | CONFIG_INVALID
  | OtherCode string

text \<open>
  A value thrown by an external collaborator (a rejected promise): an \<^verbatim>\<open>Error\<close> with its
  message, a \<^verbatim>\<open>DextoRuntimeError\<close> with its code and message, or a value that is no
  \<^verbatim>\<open>Error\<close>, kept as its \<^verbatim>\<open>String(error)\<close> rendering.
\<close>

datatype thrown =
    Error string
  | DextoRuntimeError ErrorCode string
  | NonError string

text \<open>\<^verbatim>\<open>error instanceof Error ? error.message : String(error)\<close>\<close>

fun errorMessage :: "thrown \<Rightarrow> string" where
  "errorMessage (Error msg) = msg"
| "errorMessage (DextoRuntimeError c msg) = msg"
| "errorMessage (NonError s) = s"

section \<open>The client manager (core/client/manager.ts)\<close>

datatype ConnectionMode = strict | lenient

record McpServerConfig =
  connectionMode :: "ConnectionMode option"

text \<open>
  An \<^verbatim>\<open>MCPClient\<close> object. The source compares clients by reference
  (\<^verbatim>\<open>mappedClient === client\<close>), so every object carries the number of its allocation;
  \<open>serverName\<close> is the name it was connected under.
\<close>

datatype IMCPClient = MCPClient (cid: nat) (serverName: string)

text \<open>
  What the servers answer. \<open>connect\<close> is \<^verbatim>\<open>client.connect(config, name)\<close>: \<open>None\<close> when
  the promise resolves, \<open>Some e\<close> when it rejects with \<open>e\<close>; the other fields are the
  methods of \<^verbatim>\<open>IMCPClient\<close>, \<open>Inl\<close> a rejection.
\<close>

record world =
  connect :: "McpServerConfig \<Rightarrow> string \<Rightarrow> thrown option"
  getTools :: "IMCPClient \<Rightarrow> thrown + ToolSet"
  listPrompts :: "IMCPClient \<Rightarrow> thrown + string list"
  listResources :: "IMCPClient \<Rightarrow> thrown + string list"
  callTool :: "IMCPClient \<Rightarrow> string \<Rightarrow> json \<Rightarrow> thrown + json"
  disconnect :: "IMCPClient \<Rightarrow> thrown option"

text \<open>
  The fields of \<^verbatim>\<open>MCPManager\<close>. \<open>allocated\<close> counts the \<^verbatim>\<open>new MCPClient()\<close> objects made
  so far and gives the next object its identity.
\<close>

record MCPManager =
  clients :: "(string \<times> IMCPClient) list"
  connectionErrors :: "(string \<times> string) list"
  toolToClientMap :: "(string \<times> IMCPClient) list"
  promptToClientMap :: "(string \<times> IMCPClient) list"
  resourceToClientMap :: "(string \<times> IMCPClient) list"
  allocated :: nat

definition newManager :: MCPManager where
  "newManager = \<lparr>clients = [], connectionErrors = [], toolToClientMap = [],
     promptToClientMap = [], resourceToClientMap = [], allocated = 0\<rparr>"

text \<open>The inner loop of \<^verbatim>\<open>clearClientCache\<close>: delete every key mapped to \<open>client\<close>.\<close>

definition purge :: "IMCPClient \<Rightarrow> (string \<times> IMCPClient) list \<Rightarrow> (string \<times> IMCPClient) list" where
  "purge client cacheMap = filter (\<lambda>(key, mappedClient). mappedClient \<noteq> client) cacheMap"

definition clearClientCache :: "string \<Rightarrow> MCPManager \<Rightarrow> MCPManager" where
  "clearClientCache clientName m =
     (case map_of (clients m) clientName of
        None \<Rightarrow> m
      | Some client \<Rightarrow>
          m\<lparr>toolToClientMap := purge client (toolToClientMap m),
            promptToClientMap := purge client (promptToClientMap m),
            resourceToClientMap := purge client (resourceToClientMap m)\<rparr>)"

definition registerClient :: "string \<Rightarrow> IMCPClient \<Rightarrow> MCPManager \<Rightarrow> MCPManager" where
  "registerClient name client m =
     (let m1 = clearClientCache name m
      in m1\<lparr>clients := AList.update name client (clients m1),
            connectionErrors := AList.delete name (connectionErrors m1)\<rparr>)"

text \<open>\<^verbatim>\<open>for (const key of keys) cacheMap.set(key, client)\<close>\<close>

definition setAll :: "string list \<Rightarrow> IMCPClient \<Rightarrow> (string \<times> IMCPClient) list \<Rightarrow> (string \<times> IMCPClient) list" where
  "setAll keys client cacheMap = fold (\<lambda>key. AList.update key client) keys cacheMap"

text \<open>
  The three blocks of \<^verbatim>\<open>updateClientCache\<close>, each run when its \<^verbatim>\<open>await\<close> settles. A
  failure of \<^verbatim>\<open>getTools\<close> returns early; a failure of the other two is skipped.
\<close>

definition cacheTools :: "ToolSet \<Rightarrow> IMCPClient \<Rightarrow> MCPManager \<Rightarrow> MCPManager" where
  "cacheTools tools client m = m\<lparr>toolToClientMap := setAll (map fst tools) client (toolToClientMap m)\<rparr>"

definition cachePrompts :: "world \<Rightarrow> IMCPClient \<Rightarrow> MCPManager \<Rightarrow> MCPManager" where
  "cachePrompts w client m =
     (case listPrompts w client of
        Inr prompts \<Rightarrow> m\<lparr>promptToClientMap := setAll prompts client (promptToClientMap m)\<rparr>
      | Inl e \<Rightarrow> m)"

definition cacheResources :: "world \<Rightarrow> IMCPClient \<Rightarrow> MCPManager \<Rightarrow> MCPManager" where
  "cacheResources w client m =
     (case listResources w client of
        Inr resources \<Rightarrow> m\<lparr>resourceToClientMap := setAll resources client (resourceToClientMap m)\<rparr>
      | Inl e \<Rightarrow> m)"

definition updateClientCache :: "world \<Rightarrow> string \<Rightarrow> IMCPClient \<Rightarrow> MCPManager \<Rightarrow> MCPManager" where
  "updateClientCache w clientName client m =
     (case getTools w client of
        Inl e \<Rightarrow> m
      | Inr tools \<Rightarrow> cacheResources w client (cachePrompts w client (cacheTools tools client m)))"

text \<open>
  \<^verbatim>\<open>connectionErrors\<close> is a plain object used as a dictionary
  (\<^verbatim>\<open>{ [key: string]: string } = {}\<close>), not a \<^verbatim>\<open>Map\<close>. The field of the record holds its
  own properties. A read that finds no own property goes on to \<^verbatim>\<open>Object.prototype\<close>:
  the key \<^verbatim>\<open>__proto__\<close> yields the prototype object itself, the name of one of its
  methods yields that function, any other key yields \<^verbatim>\<open>undefined\<close>. An assignment makes
  or updates an own property, except under the key \<^verbatim>\<open>__proto__\<close>: there it calls the
  setter of \<^verbatim>\<open>Object.prototype\<close>, which ignores a string. \<^verbatim>\<open>delete\<close> removes an own
  property and is \<^const>\<open>AList.delete\<close>.
\<close>

datatype PropertyValue =
    StringValue string
  | PrototypeObject
  | PrototypeFunction string
  | Undefined

text \<open>The methods of \<^verbatim>\<open>Object.prototype\<close>, each with the name of its function.\<close>

definition objectPrototypeFunctions :: "(string \<times> string) list" where
  "objectPrototypeFunctions =
     [(''constructor'', ''Object''),
      (''hasOwnProperty'', ''hasOwnProperty''),
      (''isPrototypeOf'', ''isPrototypeOf''),
      (''propertyIsEnumerable'', ''propertyIsEnumerable''),
      (''toLocaleString'', ''toLocaleString''),
      (''toString'', ''toString''),
      (''valueOf'', ''valueOf''),
      (''__defineGetter__'', ''__defineGetter__''),
      (''__defineSetter__'', ''__defineSetter__''),
      (''__lookupGetter__'', ''__lookupGetter__''),
      (''__lookupSetter__'', ''__lookupSetter__'')]"

text \<open>\<^verbatim>\<open>obj[key]\<close>\<close>

definition getProperty :: "(string \<times> string) list \<Rightarrow> string \<Rightarrow> PropertyValue" where
  "getProperty obj key =
     (case map_of obj key of
        Some v \<Rightarrow> StringValue v
      | None \<Rightarrow>
          if key = ''__proto__'' then PrototypeObject
          else (case map_of objectPrototypeFunctions key of
                  Some f \<Rightarrow> PrototypeFunction f
                | None \<Rightarrow> Undefined))"

text \<open>\<^verbatim>\<open>obj[key] = v\<close> for a string \<open>v\<close>\<close>

definition setProperty :: "string \<Rightarrow> string \<Rightarrow> (string \<times> string) list \<Rightarrow> (string \<times> string) list" where
  "setProperty key v obj =
     (if key = ''__proto__'' \<and> map_of obj key = None then obj else AList.update key v obj)"

text \<open>Truthiness, and the text a value has in a template literal.\<close>

fun truthy :: "PropertyValue \<Rightarrow> bool" where
  "truthy (StringValue v) = (v \<noteq> [])"
| "truthy PrototypeObject = True"
| "truthy (PrototypeFunction f) = True"
| "truthy Undefined = False"

fun toText :: "PropertyValue \<Rightarrow> string" where
  "toText (StringValue v) = v"
| "toText PrototypeObject = ''[object Object]''"
| "toText (PrototypeFunction f) = ''function '' @ f @ ''() { [native code] }''"
| "toText Undefined = ''undefined''"

text \<open>The \<^verbatim>\<open>catch\<close> block of \<^verbatim>\<open>connectServer\<close>, up to the error it rethrows.\<close>

definition connectFailed :: "string \<Rightarrow> thrown \<Rightarrow> MCPManager \<Rightarrow> MCPManager" where
  "connectFailed name e m =
     m\<lparr>connectionErrors := setProperty name (errorMessage e) (connectionErrors m),
       clients := AList.delete name (clients m)\<rparr>"

definition connectError :: "string \<Rightarrow> thrown \<Rightarrow> thrown" where
  "connectError name e =
     Error (''Failed to connect to new server '' @ [CHR 39] @ name @ [CHR 39] @ '': '' @ errorMessage e)"

text \<open>
  \<^verbatim>\<open>connectServer\<close> run on its own, with nothing interleaved between its awaits. Inside
  its \<^verbatim>\<open>try\<close> only \<^verbatim>\<open>client.connect\<close> can throw: \<^verbatim>\<open>registerClient\<close> does not, and
  \<^verbatim>\<open>updateClientCache\<close> catches what the client throws.
\<close>

definition connectServer :: "world \<Rightarrow> string \<Rightarrow> McpServerConfig \<Rightarrow> MCPManager \<Rightarrow> (thrown + unit) \<times> MCPManager" where
  "connectServer w name config m =
     (if name \<in> fst ` set (clients m) then (Inr (), m)
      else
        let client = MCPClient (allocated m) name;
            m0 = m\<lparr>allocated := Suc (allocated m)\<rparr>
        in case connect w config name of
             None \<Rightarrow> (Inr (), updateClientCache w name client (registerClient name client m0))
           | Some e \<Rightarrow> (Inl (connectError name e), connectFailed name e m0))"

text \<open>
  \<^verbatim>\<open>removeClient\<close>. The result of \<^verbatim>\<open>client.disconnect()\<close> is only logged: both branches
  of the \<^verbatim>\<open>try\<close> go on to the removal. The entry of \<open>clients\<close> is deleted first and
  \<^const>\<open>clearClientCache\<close> is called after it, as in the source. The last \<^verbatim>\<open>if\<close> tests
  \<^verbatim>\<open>this.connectionErrors[name]\<close> for truthiness, so an empty message is kept; where
  the test reads an inherited property, it is true and the \<^verbatim>\<open>delete\<close> finds no own
  property to remove.
\<close>

definition removeClient :: "world \<Rightarrow> string \<Rightarrow> MCPManager \<Rightarrow> (thrown + unit) \<times> MCPManager" where
  "removeClient w name m =
     (let m1 =
        (case map_of (clients m) name of
           None \<Rightarrow> m
         | Some client \<Rightarrow>
             (case disconnect w client of
                None \<Rightarrow> clearClientCache name (m\<lparr>clients := AList.delete name (clients m)\<rparr>)
              | Some e \<Rightarrow> clearClientCache name (m\<lparr>clients := AList.delete name (clients m)\<rparr>)))
      in if truthy (getProperty (connectionErrors m1) name)
         then (Inr (), m1\<lparr>connectionErrors := AList.delete name (connectionErrors m1)\<rparr>)
         else (Inr (), m1))"

text \<open>
  \<^verbatim>\<open>disconnectAll\<close>: every \<^verbatim>\<open>disconnect()\<close> promise carries its own \<^verbatim>\<open>catch\<close>, so
  whatever the clients answer, the maps are cleared.
\<close>

definition disconnectAll :: "world \<Rightarrow> MCPManager \<Rightarrow> (thrown + unit) \<times> MCPManager" where
  "disconnectAll w m =
     (let outcomes = map (\<lambda>(name, client). disconnect w client) (clients m)
      in (Inr (), m\<lparr>clients := [], connectionErrors := [], toolToClientMap := [],
                    promptToClientMap := [], resourceToClientMap := []\<rparr>))"

text \<open>
  \<^verbatim>\<open>getAllTools\<close>: the loop over the entries of \<open>toolToClientMap\<close>. A rejected
  \<^verbatim>\<open>client.getTools()\<close> is not caught, and a name its owner no longer lists is skipped.
  The manager is returned with the result: the method writes no field.
\<close>

fun collectTools :: "world \<Rightarrow> (string \<times> IMCPClient) list \<Rightarrow> ToolSet \<Rightarrow> thrown + ToolSet" where
  "collectTools w [] allTools = Inr allTools"
| "collectTools w ((toolName, client) # entries) allTools =
     (case getTools w client of
        Inl e \<Rightarrow> Inl e
      | Inr clientTools \<Rightarrow>
          (case map_of clientTools toolName of
             Some toolDef \<Rightarrow> collectTools w entries (AList.update toolName toolDef allTools)
           | None \<Rightarrow> collectTools w entries allTools))"

definition getAllTools :: "world \<Rightarrow> MCPManager \<Rightarrow> (thrown + ToolSet) \<times> MCPManager" where
  "getAllTools w m = (collectTools w (toolToClientMap m) [], m)"


text \<open>
  \<^verbatim>\<open>executeTool\<close>. The confirmation provider is a parameter: it answers a request with a
  boolean, or rejects. The second component of the result is the trace of the calls made
  to the provider and to the transport, in order. \<^verbatim>\<open>...(sessionId && { sessionId })\<close>
  leaves an empty session id out of the request.
\<close>

record ToolExecutionDetails =
  toolName :: string
  args :: json
  sessionId :: "string option"



datatype call =
    RequestConfirmation ToolExecutionDetails
  | CallTool IMCPClient string json


subsection \<open>initializeFromConfig\<close>

text \<open>
  \<^verbatim>\<open>initializeFromConfig\<close> starts one \<^verbatim>\<open>connectServer\<close> per entry and awaits all of them.
  Each started call is a promise suspended at one of its awaits, with its local
  \<^verbatim>\<open>client\<close>, or settled. Between two awaits a call runs without interruption, so the
  run is a sequence of steps, one per settled await; the order in which the awaits of
  the different servers settle is the schedule, a list of server names.
\<close>

datatype promise =
    Connecting IMCPClient McpServerConfig
  | GettingTools IMCPClient
  | ListingPrompts IMCPClient
  | ListingResources IMCPClient
  | Resolved
  | Rejected

fun settled :: "promise \<Rightarrow> bool" where
  "settled Resolved = True"
| "settled Rejected = True"
| "settled p = False"

record initialization =
  manager :: MCPManager
  connectionPromises :: "(string \<times> promise) list"
  successfulConnections :: "string list"

definition effectiveMode :: "McpServerConfig \<Rightarrow> ConnectionMode" where
  "effectiveMode config = (case connectionMode config of None \<Rightarrow> lenient | Some mode \<Rightarrow> mode)"

definition strictServers :: "(string \<times> McpServerConfig) list \<Rightarrow> string list" where
  "strictServers serverConfigs = map fst (filter (\<lambda>(name, config). effectiveMode config = strict) serverConfigs)"

definition lenientServers :: "(string \<times> McpServerConfig) list \<Rightarrow> string list" where
  "lenientServers serverConfigs = map fst (filter (\<lambda>(name, config). effectiveMode config \<noteq> strict) serverConfigs)"

text \<open>
  The synchronous part of one call of \<^verbatim>\<open>connectServer\<close>, up to its first await: a name
  already registered returns at once (the promise is resolved, and its \<^verbatim>\<open>then\<close> records
  the name); otherwise the client is made and \<^verbatim>\<open>client.connect\<close> is awaited.
\<close>

definition start :: "string \<Rightarrow> McpServerConfig \<Rightarrow> initialization \<Rightarrow> initialization" where
  "start name config s =
     (if name \<in> fst ` set (clients (manager s)) then
        s\<lparr>connectionPromises := connectionPromises s @ [(name, Resolved)],
          successfulConnections := successfulConnections s @ [name]\<rparr>
      else
        s\<lparr>manager := (manager s)\<lparr>allocated := Suc (allocated (manager s))\<rparr>,
          connectionPromises := connectionPromises s @ [(name, Connecting (MCPClient (allocated (manager s)) name) config)]\<rparr>)"

fun startAll :: "(string \<times> McpServerConfig) list \<Rightarrow> initialization \<Rightarrow> initialization" where
  "startAll [] s = s"
| "startAll ((name, config) # serverConfigs) s = startAll serverConfigs (start name config s)"

text \<open>One await of the call for \<open>name\<close> settles, and the call runs to its next await.\<close>

definition settle :: "world \<Rightarrow> string \<Rightarrow> initialization \<Rightarrow> initialization" where
  "settle w name s =
     (case map_of (connectionPromises s) name of
        None \<Rightarrow> s
      | Some (Connecting client config) \<Rightarrow>
          (case connect w config name of
             None \<Rightarrow>
               s\<lparr>manager := registerClient name client (manager s),
                 connectionPromises := AList.update name (GettingTools client) (connectionPromises s)\<rparr>
           | Some e \<Rightarrow>
               s\<lparr>manager := connectFailed name e (manager s),
                 connectionPromises := AList.update name Rejected (connectionPromises s)\<rparr>)
      | Some (GettingTools client) \<Rightarrow>
          (case getTools w client of
             Inr tools \<Rightarrow>
               s\<lparr>manager := cacheTools tools client (manager s),
                 connectionPromises := AList.update name (ListingPrompts client) (connectionPromises s)\<rparr>
           | Inl e \<Rightarrow>
               s\<lparr>connectionPromises := AList.update name Resolved (connectionPromises s),
                 successfulConnections := successfulConnections s @ [name]\<rparr>)
      | Some (ListingPrompts client) \<Rightarrow>
          s\<lparr>manager := cachePrompts w client (manager s),
            connectionPromises := AList.update name (ListingResources client) (connectionPromises s)\<rparr>
      | Some (ListingResources client) \<Rightarrow>
          s\<lparr>manager := cacheResources w client (manager s),
            connectionPromises := AList.update name Resolved (connectionPromises s),
            successfulConnections := successfulConnections s @ [name]\<rparr>
      | Some Resolved \<Rightarrow> s
      | Some Rejected \<Rightarrow> s)"

definition run :: "world \<Rightarrow> string list \<Rightarrow> (string \<times> McpServerConfig) list \<Rightarrow> MCPManager \<Rightarrow> initialization" where
  "run w schedule serverConfigs m =
     fold (settle w) schedule
       (startAll serverConfigs \<lparr>manager = m, connectionPromises = [], successfulConnections = []\<rparr>)"

text \<open>\<^verbatim>\<open>parts.join(sep)\<close>\<close>

fun join :: "string \<Rightarrow> string list \<Rightarrow> string" where
  "join sep [] = []"
| "join sep [part] = part"
| "join sep (part # parts) = part @ sep @ join sep parts"

text \<open>\<^verbatim>\<open>`${name}: ${this.connectionErrors[name] || 'Unknown error'}`\<close>\<close>

definition strictError :: "MCPManager \<Rightarrow> string \<Rightarrow> string" where
  "strictError m name =
     name @ '': '' @
       (if truthy (getProperty (connectionErrors m) name)
        then toText (getProperty (connectionErrors m) name)
        else ''Unknown error'')"

text \<open>
  \<^verbatim>\<open>initializeFromConfig\<close> under a schedule. \<^verbatim>\<open>await Promise.all(connectionPromises)\<close>
  returns only when every promise is settled: a schedule that leaves a promise pending
  gives \<open>None\<close>, the call has not returned.
\<close>

definition initializeFromConfig ::
  "world \<Rightarrow> string list \<Rightarrow> (string \<times> McpServerConfig) list \<Rightarrow> MCPManager
     \<Rightarrow> ((thrown + unit) \<times> MCPManager) option" where
  "initializeFromConfig w schedule serverConfigs m =
     (if serverConfigs = [] then Some (Inr (), m)
      else
        let s = run w schedule serverConfigs m
        in if \<not> list_all (\<lambda>(name, p). settled p) (connectionPromises s) then None
           else
             let failedStrictServers =
                   filter (\<lambda>name. name \<notin> set (successfulConnections s)) (strictServers serverConfigs)
             in if failedStrictServers \<noteq> [] then
                  Some (Inl (Error (''Failed to connect to required strict servers: '' @
                          join ''; '' (map (strictError (manager s)) failedStrictServers))),
                        manager s)
                else Some (Inr (), manager s))"

section \<open>The Anthropic service (ai/llm/services/anthropic.ts)\<close>

datatype ToolUse = ToolUse (useId: string) (useName: string) (useInput: json)

text \<open>A block of \<^verbatim>\<open>response.content\<close>: text, a tool use, or a block of another type.\<close>

datatype ContentBlock = TextBlock string | ToolUseBlock ToolUse | OtherBlock

text \<open>
  The tool call handed to the message manager. \<^verbatim>\<open>arguments\<close> is
  \<^verbatim>\<open>JSON.stringify(toolUse.input)\<close> in the source; the model keeps the value that text
  encodes.
\<close>

datatype ToolCall = FunctionCall (callId: string) (functionName: string) (functionArguments: json)

datatype InternalMessage =
    UserMessage string "string option"
  | AssistantMessage string "ToolCall list option"
  | ToolResultMessage string string json

datatype Event =
    Thinking
  | ToolCallEvent string json
  | ToolResultEvent string json
  | ResponseEvent string
  | ErrorEvent thrown

record AnthropicService =
  messages :: "InternalMessage list"
  emitted :: "Event list"

text \<open>
  Modelled from the spec: \<^verbatim>\<open>MessageManager\<close> (llm/messages/manager.ts is not among the
  sources). Its \<^verbatim>\<open>addUserMessage\<close>, \<^verbatim>\<open>addAssistantMessage\<close> and \<^verbatim>\<open>addToolResult\<close> are
  "pure appends to the message log; never evict on their own".
\<close>

definition addUserMessage :: "string \<Rightarrow> string option \<Rightarrow> AnthropicService \<Rightarrow> AnthropicService" where
  "addUserMessage userInput imageData s = s\<lparr>messages := messages s @ [UserMessage userInput imageData]\<rparr>"

definition addAssistantMessage :: "string \<Rightarrow> ToolCall list option \<Rightarrow> AnthropicService \<Rightarrow> AnthropicService" where
  "addAssistantMessage textContent toolCalls s = s\<lparr>messages := messages s @ [AssistantMessage textContent toolCalls]\<rparr>"

definition addToolResult :: "string \<Rightarrow> string \<Rightarrow> json \<Rightarrow> AnthropicService \<Rightarrow> AnthropicService" where
  "addToolResult toolCallId name result s = s\<lparr>messages := messages s @ [ToolResultMessage toolCallId name result]\<rparr>"

definition emit :: "Event \<Rightarrow> AnthropicService \<Rightarrow> AnthropicService" where
  "emit e s = s\<lparr>emitted := emitted s @ [e]\<rparr>"

text \<open>
  The collaborators of \<^verbatim>\<open>completeTask\<close>: the provider call
  \<^verbatim>\<open>anthropic.messages.create\<close>, \<^verbatim>\<open>clientManager.executeTool\<close> and
  \<^verbatim>\<open>clientManager.getAllTools\<close>. The first two are asked with the message log of the moment
  of the call, so that they may answer the same request differently at different times.
\<close>

record collaborators =
  messagesCreate :: "InternalMessage list \<Rightarrow> thrown + ContentBlock list"
  managerExecuteTool :: "InternalMessage list \<Rightarrow> string \<Rightarrow> json \<Rightarrow> thrown + json"
  managerGetAllTools :: "thrown + ToolSet"

definition MAX_ITERATIONS :: nat where
  "MAX_ITERATIONS = 10"

fun textOf :: "ContentBlock list \<Rightarrow> string" where
  "textOf [] = []"
| "textOf (TextBlock t # content) = t @ textOf content"
| "textOf (b # content) = textOf content"

fun toolUsesOf :: "ContentBlock list \<Rightarrow> ToolUse list" where
  "toolUsesOf [] = []"
| "toolUsesOf (ToolUseBlock u # content) = u # toolUsesOf content"
| "toolUsesOf (b # content) = toolUsesOf content"

definition formatToolCall :: "ToolUse \<Rightarrow> ToolCall" where
  "formatToolCall toolUse = FunctionCall (useId toolUse) (useName toolUse) (useInput toolUse)"

text \<open>The \<^verbatim>\<open>for (const toolUse of toolUses)\<close> loop with its \<^verbatim>\<open>try\<close>/\<^verbatim>\<open>catch\<close>.\<close>

fun handleToolUses :: "collaborators \<Rightarrow> ToolUse list \<Rightarrow> AnthropicService \<Rightarrow> AnthropicService" where
  "handleToolUses env [] s = s"
| "handleToolUses env (ToolUse toolUseId name input # toolUses) s =
     (let s1 = emit (ToolCallEvent name input) s
      in case managerExecuteTool env (messages s1) name input of
           Inr result \<Rightarrow>
             handleToolUses env toolUses
               (emit (ToolResultEvent name result) (addToolResult toolUseId name result s1))
         | Inl error \<Rightarrow>
             handleToolUses env toolUses
               (emit (ToolResultEvent name (JObj [(''error'', JStr (errorMessage error))]))
                 (addToolResult toolUseId name (JObj [(''error'', JStr (errorMessage error))]) s1)))"

text \<open>\<^verbatim>\<open>error instanceof Error ? error : new Error(errorMessage)\<close>\<close>

fun asError :: "thrown \<Rightarrow> thrown" where
  "asError (NonError s) = Error s"
| "asError e = e"

text \<open>
  The \<^verbatim>\<open>while (iterationCount < MAX_ITERATIONS)\<close> loop inside the outer \<^verbatim>\<open>try\<close>, with what
  follows it. The result is the returned string, the final \<^verbatim>\<open>iterationCount\<close> and the
  service.
\<close>

function whileLoop :: "collaborators \<Rightarrow> nat \<Rightarrow> string \<Rightarrow> AnthropicService \<Rightarrow> string \<times> nat \<times> AnthropicService" where
  "whileLoop env iterationCount fullResponse s =
     (if iterationCount < MAX_ITERATIONS then
        (case messagesCreate env (messages s) of
           Inl error \<Rightarrow>
             (''Error processing request: '' @ errorMessage error, Suc iterationCount,
              emit (ErrorEvent (asError error)) s)
         | Inr content \<Rightarrow>
             let textContent = textOf content;
                 toolUses = toolUsesOf content;
                 s1 = (if toolUses \<noteq> [] then addAssistantMessage textContent (Some (map formatToolCall toolUses)) s
                       else addAssistantMessage textContent None s)
             in if toolUses = [] then
                  (fullResponse @ textContent, Suc iterationCount,
                   emit (ResponseEvent (fullResponse @ textContent)) s1)
                else
                  whileLoop env (Suc iterationCount)
                    (if textContent \<noteq> [] then fullResponse @ textContent @ [CHR 0x0A] else fullResponse)
                    (emit Thinking (handleToolUses env toolUses s1)))
      else
        (if fullResponse \<noteq> [] then fullResponse
         else ''Reached maximum number of tool call iterations without a final response.'',
         iterationCount, emit (ResponseEvent fullResponse) s))"
  by pat_completeness auto
termination
  by (relation "measure (\<lambda>(env, iterationCount, fullResponse, s). MAX_ITERATIONS - iterationCount)") auto

text \<open>
  \<^verbatim>\<open>completeTask\<close>. \<^verbatim>\<open>getAllTools\<close> is awaited before the \<^verbatim>\<open>try\<close>, so its rejection is the
  one error that leaves the method. The tools it returns go to the provider call only.
\<close>

definition completeTask ::
  "collaborators \<Rightarrow> string \<Rightarrow> string option \<Rightarrow> AnthropicService \<Rightarrow> thrown + string \<times> nat \<times> AnthropicService" where
  "completeTask env userInput imageData s =
     (let s1 = addUserMessage userInput imageData s
      in case managerGetAllTools env of
           Inl error \<Rightarrow> Inl error
         | Inr rawTools \<Rightarrow> Inr (whileLoop env 0 [] (emit Thinking s1)))"

section \<open>The Vercel service (core/llm/services/vercel.ts)\<close>

text \<open>
  The \<^verbatim>\<open>execute\<close> function that \<^verbatim>\<open>formatTools\<close> gives every tool: the call of
  \<^verbatim>\<open>toolManager.executeTool(toolName, args, sessionId)\<close> inside its \<^verbatim>\<open>try\<close>/\<^verbatim>\<open>catch\<close>.
\<close>

definition execute :: "(string \<Rightarrow> json \<Rightarrow> string \<Rightarrow> thrown + json) \<Rightarrow> string \<Rightarrow> string \<Rightarrow> json \<Rightarrow> json" where
  "execute toolManagerExecuteTool session name arguments =
     (case toolManagerExecuteTool name arguments session of
        Inr result \<Rightarrow> result
      | Inl (DextoRuntimeError code msg) \<Rightarrow>
          if code = EXECUTION_DENIED then JObj [(''error'', JStr msg), (''denied'', JBool True)]
          else if code = CONFIRMATION_TIMEOUT then
            JObj [(''error'', JStr msg), (''denied'', JBool True), (''timeout'', JBool True)]
          else JObj [(''error'', JStr msg)]
      | Inl err \<Rightarrow> JObj [(''error'', JStr (errorMessage err))])"

record VercelTool =
  toolParameters :: json
  toolExecute :: "json \<Rightarrow> json"
  toolDescription :: "string option"

text \<open>\<^verbatim>\<open>Object.keys(tools).reduce(...)\<close>; an empty description is left out.\<close>

definition formatTools :: "(string \<Rightarrow> json \<Rightarrow> string \<Rightarrow> thrown + json) \<Rightarrow> string \<Rightarrow> ToolSet \<Rightarrow> (string \<times> VercelTool) list" where
  "formatTools toolManagerExecuteTool session tools =
     fold (\<lambda>name acc.
            case map_of tools name of
              None \<Rightarrow> acc
            | Some tool \<Rightarrow>
                AList.update name
                  \<lparr>toolParameters = parameters tool,
                   toolExecute = execute toolManagerExecuteTool session name,
                   toolDescription = (case description tool of None \<Rightarrow> None | Some d \<Rightarrow> if d = [] then None else Some d)\<rparr>
                  acc)
       (map fst tools) []"

section \<open>The token budget of the message manager\<close>

text \<open>
  \<^verbatim>\<open>createMessageManager\<close> (llm/messages/factory) and the constructor of
  \<^verbatim>\<open>AnthropicService\<close> both compute \<^verbatim>\<open>Math.floor(max * 0.9)\<close> on JavaScript numbers, that
  is on IEEE 754 doubles. The registry maximum is an integer and is exact as a double.
  The literal \<^verbatim>\<open>0.9\<close> is the double \<^verbatim>\<open>8106479329266893 / 2^53\<close>. The product of the two
  is the exact product rounded to 53 significant bits, ties to even; \<^verbatim>\<open>Math.floor\<close> of
  the rounded product is exact. All of this is integer arithmetic on the numerator
  \<open>max * 8106479329266893\<close>, the denominator being \<^verbatim>\<open>2^53\<close>.
\<close>

text \<open>The number of binary digits of a natural number.\<close>

fun bitLength :: "nat \<Rightarrow> nat" where
  "bitLength n = (if n = 0 then 0 else Suc (bitLength (n div 2)))"

declare bitLength.simps [simp del]

text \<open>A natural number rounded to 53 significant bits, ties to even.\<close>

definition roundToDouble :: "nat \<Rightarrow> nat" where
  "roundToDouble N =
     (let b = bitLength N
      in if b \<le> 53 then N
         else
           let sh = b - 53;
               q = N div 2 ^ sh;
               r = N mod 2 ^ sh;
               half = 2 ^ (sh - 1)
           in (if r < half \<or> (r = half \<and> even q) then q else q + 1) * 2 ^ sh)"

text \<open>\<^verbatim>\<open>Math.floor(x * 0.9)\<close> for a natural number \<open>x\<close>.\<close>

definition floorTimes09 :: "nat \<Rightarrow> nat" where
  "floorTimes09 x = roundToDouble (x * 8106479329266893) div 2 ^ 53"

text \<open>\<^verbatim>\<open>toLowerCase()\<close>, on the ASCII letters that provider and model names are written in.\<close>

definition toLowerCase :: "string \<Rightarrow> string" where
  "toLowerCase text =
     map (\<lambda>c. if 65 \<le> (of_char c :: nat) \<and> (of_char c :: nat) \<le> 90
               then char_of (of_char c + 32 :: nat) else c) text"

record LLMConfig =
  provider :: string
  model :: string

record MessageManager =
  maxTokens :: nat

text \<open>
  \<^verbatim>\<open>createMessageManager\<close>, as far as the budget goes. The registry
  (\<^verbatim>\<open>getMaxTokensForModel\<close> of llm/registry.ts, not among the sources) is a parameter;
  \<open>None\<close> is a model it does not know.
\<close>

definition createMessageManager :: "(string \<Rightarrow> string \<Rightarrow> nat option) \<Rightarrow> LLMConfig \<Rightarrow> MessageManager option" where
  "createMessageManager getMaxTokensForModel config =
     (case getMaxTokensForModel (toLowerCase (provider config)) (toLowerCase (model config)) of
        None \<Rightarrow> None
      | Some registryMaxTokens \<Rightarrow> Some \<lparr>maxTokens = floorTimes09 registryMaxTokens\<rparr>)"

text \<open>
  The constructor of \<^verbatim>\<open>AnthropicService\<close>, as far as the budget goes:
  \<^verbatim>\<open>model || 'claude-3-7-sonnet-20250219'\<close>, then \<^verbatim>\<open>getMaxTokens('anthropic', model)\<close>
  (tokenizer/utils.ts, not among the sources, a parameter).
\<close>

definition newAnthropicService :: "(string \<Rightarrow> string \<Rightarrow> nat option) \<Rightarrow> string option \<Rightarrow> MessageManager option" where
  "newAnthropicService getMaxTokens modelOption =
     (let modelName = (case modelOption of
                         None \<Rightarrow> ''claude-3-7-sonnet-20250219''
                       | Some name \<Rightarrow> if name = [] then ''claude-3-7-sonnet-20250219'' else name)
      in case getMaxTokens ''anthropic'' modelName of
           None \<Rightarrow> None
         | Some rawMaxTokens \<Rightarrow> Some \<lparr>maxTokens = floorTimes09 rawMaxTokens\<rparr>)"

section \<open>Vocabulary of the properties\<close>


text \<open>
  An entry of the configuration fails to connect when its name is not registered yet (a
  registered name is not attempted) and \<^verbatim>\<open>client.connect\<close> rejects. The failed strict
  servers are the entries in strict mode that fail to connect, in the order of the
  configuration, and each is reported with the message of its rejection
  (\<^verbatim>\<open>'Unknown error'\<close> when that message is empty).
\<close>

definition failsToConnect :: "world \<Rightarrow> MCPManager \<Rightarrow> string \<times> McpServerConfig \<Rightarrow> bool" where
  "failsToConnect w m = (\<lambda>(name, config). name \<notin> fst ` set (clients m) \<and> connect w config name \<noteq> None)"

definition failureLine :: "world \<Rightarrow> string \<times> McpServerConfig \<Rightarrow> string" where
  "failureLine w = (\<lambda>(name, config). name @ '': '' @
      (case connect w config name of
         None \<Rightarrow> ''Unknown error''
       | Some e \<Rightarrow> if errorMessage e = [] then ''Unknown error'' else errorMessage e))"

definition failedStrict :: "world \<Rightarrow> MCPManager \<Rightarrow> (string \<times> McpServerConfig) list \<Rightarrow> (string \<times> McpServerConfig) list" where
  "failedStrict w m serverConfigs =
     filter (\<lambda>(name, config). effectiveMode config = strict \<and> failsToConnect w m (name, config)) serverConfigs"

text \<open>
  The invariant of a run of \<^verbatim>\<open>initializeFromConfig\<close>: what holds of a server at each
  point of its \<^verbatim>\<open>connectServer\<close> call. \<open>reg\<close> is the set of names registered before
  the run.
\<close>

definition toolsCached :: "world \<Rightarrow> MCPManager \<Rightarrow> IMCPClient \<Rightarrow> bool" where
  "toolsCached w m client =
     (case getTools w client of
        Inl e \<Rightarrow> True
      | Inr tools \<Rightarrow> set (map fst tools) \<subseteq> fst ` set (toolToClientMap m))"

fun good :: "world \<Rightarrow> string set \<Rightarrow> initialization \<Rightarrow> string \<Rightarrow> McpServerConfig \<Rightarrow> promise \<Rightarrow> bool" where
  "good w reg s n c (Connecting cl c') =
     (c' = c \<and> serverName cl = n \<and> n \<notin> reg \<and> n \<notin> set (successfulConnections s)
      \<and> map_of (clients (manager s)) n = None)"
| "good w reg s n c (GettingTools cl) =
     (serverName cl = n \<and> connect w c n = None \<and> n \<notin> reg \<and> n \<notin> set (successfulConnections s)
      \<and> map_of (clients (manager s)) n = Some cl)"
| "good w reg s n c (ListingPrompts cl) =
     (serverName cl = n \<and> connect w c n = None \<and> n \<notin> reg \<and> n \<notin> set (successfulConnections s)
      \<and> map_of (clients (manager s)) n = Some cl \<and> toolsCached w (manager s) cl)"
| "good w reg s n c (ListingResources cl) =
     (serverName cl = n \<and> connect w c n = None \<and> n \<notin> reg \<and> n \<notin> set (successfulConnections s)
      \<and> map_of (clients (manager s)) n = Some cl \<and> toolsCached w (manager s) cl)"
| "good w reg s n c Resolved =
     (n \<in> set (successfulConnections s)
      \<and> (n \<in> reg \<or> (connect w c n = None
            \<and> (\<exists>cl. map_of (clients (manager s)) n = Some cl \<and> serverName cl = n
                    \<and> toolsCached w (manager s) cl))))"
| "good w reg s n c Rejected =
     (n \<notin> set (successfulConnections s) \<and> n \<notin> reg \<and> map_of (clients (manager s)) n = None
      \<and> (\<exists>e. connect w c n = Some e
             \<and> (n \<noteq> ''__proto__'' \<longrightarrow>
                  map_of (connectionErrors (manager s)) n = Some (errorMessage e))))"

definition inv :: "world \<Rightarrow> string set \<Rightarrow> (string \<times> McpServerConfig) list \<Rightarrow> initialization \<Rightarrow> bool" where
  "inv w reg cfgs s =
     (fst ` set (connectionPromises s) \<subseteq> fst ` set cfgs
      \<and> (\<forall>n c. (n, c) \<in> set cfgs \<longrightarrow>
            (\<exists>p. map_of (connectionPromises s) n = Some p \<and> good w reg s n c p)))"

text \<open>The awaits a promise still has in front of it, at most.\<close>

fun remaining :: "promise option \<Rightarrow> nat" where
  "remaining (Some (Connecting cl c)) = 4"
| "remaining (Some (GettingTools cl)) = 3"
| "remaining (Some (ListingPrompts cl)) = 2"
| "remaining (Some (ListingResources cl)) = 1"
| "remaining p = 0"

text \<open>The call a tool-result message answers; which messages are assistant messages.\<close>

fun resultKey :: "InternalMessage \<Rightarrow> (string \<times> string) option" where
  "resultKey (ToolResultMessage toolCallId name result) = Some (toolCallId, name)"
| "resultKey m = None"

fun isAssistant :: "InternalMessage \<Rightarrow> bool" where
  "isAssistant (AssistantMessage textContent toolCalls) = True"
| "isAssistant m = False"

section \<open>Example inputs\<close>

text \<open>
  Four servers: \<open>fs\<close> and \<open>wiki\<close> cannot be reached, \<open>docs\<close> offers a tool and a prompt,
  \<open>files\<close> offers two tools and a resource and does not support prompts.
\<close>

definition exampleWorld :: world where
  "exampleWorld =
     \<lparr>connect = (\<lambda>config name.
         if name = ''fs'' then Some (Error ''ENOENT'')
         else if name = ''wiki'' then Some (NonError ''timed out'')
         else None),
      getTools = (\<lambda>client.
         if serverName client = ''docs'' then Inr [(''search'', Tool (Some ''Search the docs'') JNull)]
         else if serverName client = ''files'' then
           Inr [(''read_file'', Tool None JNull), (''delete_file'', Tool None JNull)]
         else Inl (Error ''Method not found'')),
      listPrompts = (\<lambda>client.
         if serverName client = ''docs'' then Inr [''summarize''] else Inl (Error ''Method not found'')),
      listResources = (\<lambda>client.
         if serverName client = ''files'' then Inr [''file:///README.md''] else Inr []),
      callTool = (\<lambda>client name arguments. Inr (JStr ''done'')),
      disconnect = (\<lambda>client. None)\<rparr>"

text \<open>The manager after \<^verbatim>\<open>connectServer('files', ...)\<close> on a new manager.\<close>

definition filesManager :: MCPManager where
  "filesManager = snd (connectServer exampleWorld ''files'' \<lparr>connectionMode = None\<rparr> newManager)"


text \<open>
  Configurations over these servers, and a schedule that interleaves the three calls
  and lets each of them settle four times.
\<close>

definition strictAndLenient :: "(string \<times> McpServerConfig) list" where
  "strictAndLenient =
     [(''fs'', \<lparr>connectionMode = Some strict\<rparr>),
      (''docs'', \<lparr>connectionMode = Some lenient\<rparr>),
      (''wiki'', \<lparr>connectionMode = Some lenient\<rparr>)]"

definition interleaved :: "string list" where
  "interleaved = [''docs'', ''wiki'', ''fs'', ''docs'', ''fs'', ''docs'', ''wiki'', ''docs'',
                  ''fs'', ''wiki'', ''fs'', ''wiki'']"

definition modesOmitted :: "(string \<times> McpServerConfig) list" where
  "modesOmitted =
     [(''docs'', \<lparr>connectionMode = None\<rparr>),
      (''wiki'', \<lparr>connectionMode = None\<rparr>),
      (''fs'', \<lparr>connectionMode = None\<rparr>)]"

definition fsAndDocs :: "(string \<times> McpServerConfig) list" where
  "fsAndDocs = [(''fs'', \<lparr>connectionMode = Some strict\<rparr>), (''docs'', \<lparr>connectionMode = Some lenient\<rparr>)]"

text \<open>
  A world in which no server can be reached, and two configurations, as
  \<^verbatim>\<open>JSON.parse\<close> gives them, whose only server is named \<^verbatim>\<open>__proto__\<close>: strict in the
  first, without \<^verbatim>\<open>connectionMode\<close> in the second.
\<close>

definition unreachableWorld :: world where
  "unreachableWorld = exampleWorld\<lparr>connect := (\<lambda>config name. Some (Error ''ECONNREFUSED''))\<rparr>"

definition protoStrict :: "(string \<times> McpServerConfig) list" where
  "protoStrict = [(''__proto__'', \<lparr>connectionMode = Some strict\<rparr>)]"

definition protoOmitted :: "(string \<times> McpServerConfig) list" where
  "protoOmitted = [(''__proto__'', \<lparr>connectionMode = None\<rparr>)]"

text \<open>Collaborators of the Anthropic service, and a tool manager that denies every call.\<close>

text \<open>A provider that asks for a tool first and answers once it has seen the result.\<close>

definition scriptedEnv :: collaborators where
  "scriptedEnv =
     \<lparr>messagesCreate = (\<lambda>log.
         if length log = 1 then
           Inr [TextBlock ''Let me check.'',
                ToolUseBlock (ToolUse ''call_1'' ''delete_file'' (JObj [(''path'', JStr ''/tmp/x'')]))]
         else Inr [TextBlock ''The file was not deleted.'']),
      managerExecuteTool = (\<lambda>log name arguments. Inl (Error ''Tool execution denied'')),
      managerGetAllTools = Inr [(''delete_file'', Tool None JNull)]\<rparr>"

text \<open>A provider that asks for the same tool in every response.\<close>

definition loopingEnv :: collaborators where
  "loopingEnv =
     \<lparr>messagesCreate = (\<lambda>log. Inr [ToolUseBlock (ToolUse ''call'' ''search'' JNull)]),
      managerExecuteTool = (\<lambda>log name arguments. Inr (JStr ''nothing found'')),
      managerGetAllTools = Inr [(''search'', Tool None JNull)]\<rparr>"

definition newService :: AnthropicService where
  "newService = \<lparr>messages = [], emitted = []\<rparr>"

definition denyingToolManager :: "string \<Rightarrow> json \<Rightarrow> string \<Rightarrow> thrown + json" where
  "denyingToolManager name arguments session =
     Inl (DextoRuntimeError EXECUTION_DENIED ''Tool execution denied by user'')"

text \<open>A provider that answers at once.\<close>

definition answeringEnv :: collaborators where
  "answeringEnv =
     \<lparr>messagesCreate = (\<lambda>log. Inr [TextBlock ''Hello.'']),
      managerExecuteTool = (\<lambda>log name arguments. Inr JNull),
      managerGetAllTools = Inr []\<rparr>"

text \<open>A registry with two models.\<close>

definition exampleRegistry :: "string \<Rightarrow> string \<Rightarrow> nat option" where
  "exampleRegistry p m =
     (if p = ''anthropic'' \<and> m = ''claude-3-7-sonnet-20250219'' then Some 200000
      else if p = ''openai'' \<and> m = ''gpt-4o'' then Some 128000
      else None)"

text \<open>The manager after \<^verbatim>\<open>connectServer('files', ...)\<close> and \<^verbatim>\<open>connectServer('docs', ...)\<close>.\<close>

definition docsAndFiles :: MCPManager where
  "docsAndFiles = snd (connectServer exampleWorld ''docs'' \<lparr>connectionMode = None\<rparr> filesManager)"

section \<open>Properties of the client manager\<close>

lemmas manager_defs = connectServer_def registerClient_def clearClientCache_def updateClientCache_def
  cacheTools_def cachePrompts_def cacheResources_def setAll_def purge_def connectFailed_def
  setProperty_def newManager_def Let_def

text \<open>
  The last \<^verbatim>\<open>if\<close> of \<^verbatim>\<open>removeClient\<close> in terms of the own properties of
  \<open>connectionErrors\<close>: an inherited property changes nothing.
\<close>

lemma removeClient_reads_object:
  "(if truthy (getProperty (connectionErrors m) name)
    then (Inr () :: thrown + unit, m\<lparr>connectionErrors := AList.delete name (connectionErrors m)\<rparr>)
    else (Inr (), m))
     = (case map_of (connectionErrors m) name of
          None \<Rightarrow> (Inr (), m)
        | Some msg \<Rightarrow>
            if msg \<noteq> [] then (Inr (), m\<lparr>connectionErrors := AList.delete name (connectionErrors m)\<rparr>)
            else (Inr (), m))"
proof (cases "map_of (connectionErrors m) name")
  case None
  then have "name \<notin> fst ` set (connectionErrors m)" by (simp add: map_of_eq_None_iff)
  with None show ?thesis by (simp add: getProperty_def delete_id)
next
  case (Some msg)
  then show ?thesis by (simp add: getProperty_def)
qed

lemma removeClient_eq:
  "removeClient w name m =
     (let m1 =
        (case map_of (clients m) name of
           None \<Rightarrow> m
         | Some client \<Rightarrow>
             (case disconnect w client of
                None \<Rightarrow> clearClientCache name (m\<lparr>clients := AList.delete name (clients m)\<rparr>)
              | Some e \<Rightarrow> clearClientCache name (m\<lparr>clients := AList.delete name (clients m)\<rparr>)))
      in case map_of (connectionErrors m1) name of
           None \<Rightarrow> (Inr (), m1)
         | Some msg \<Rightarrow>
             if msg \<noteq> [] then (Inr (), m1\<lparr>connectionErrors := AList.delete name (connectionErrors m1)\<rparr>)
             else (Inr (), m1))"
  unfolding removeClient_def Let_def by (rule removeClient_reads_object)

lemma filesManager_eq:
  "filesManager =
     \<lparr>clients = [(''files'', MCPClient 0 ''files'')], connectionErrors = [],
      toolToClientMap = [(''read_file'', MCPClient 0 ''files''), (''delete_file'', MCPClient 0 ''files'')],
      promptToClientMap = [],
      resourceToClientMap = [(''file:///README.md'', MCPClient 0 ''files'')],
      allocated = 1\<rparr>"
  by (simp add: filesManager_def exampleWorld_def manager_defs)

subsection \<open>executeTool\<close>



subsection \<open>removeClient and the caches\<close>

text \<open>
  C3. After \<^verbatim>\<open>connectServer('files')\<close> and \<^verbatim>\<open>removeClient('files')\<close> no client is
  registered, and the tool and resource caches still hold every entry of the removed
  client: \<^verbatim>\<open>removeClient\<close> deletes the name from \<open>clients\<close> before it calls
  \<^verbatim>\<open>clearClientCache\<close>, which looks the name up in \<open>clients\<close> and returns when it is absent.
\<close>

theorem removeClient_keeps_cache_entries:
  "clients filesManager = [(''files'', MCPClient 0 ''files'')]
   \<and> fst (removeClient exampleWorld ''files'' filesManager) = Inr ()
   \<and> clients (snd (removeClient exampleWorld ''files'' filesManager)) = []
   \<and> toolToClientMap (snd (removeClient exampleWorld ''files'' filesManager))
       = [(''read_file'', MCPClient 0 ''files''), (''delete_file'', MCPClient 0 ''files'')]
   \<and> resourceToClientMap (snd (removeClient exampleWorld ''files'' filesManager))
       = [(''file:///README.md'', MCPClient 0 ''files'')]"
  by (simp add: removeClient_eq filesManager_eq exampleWorld_def clearClientCache_def)

subsection \<open>getAllTools\<close>

lemma docsAndFiles_eq:
  "docsAndFiles =
     \<lparr>clients = [(''files'', MCPClient 0 ''files''), (''docs'', MCPClient 1 ''docs'')],
      connectionErrors = [],
      toolToClientMap = [(''read_file'', MCPClient 0 ''files''), (''delete_file'', MCPClient 0 ''files''),
                         (''search'', MCPClient 1 ''docs'')],
      promptToClientMap = [(''summarize'', MCPClient 1 ''docs'')],
      resourceToClientMap = [(''file:///README.md'', MCPClient 0 ''files'')],
      allocated = 2\<rparr>"
  by (simp add: docsAndFiles_def filesManager_eq exampleWorld_def manager_defs)

text \<open>
  C6. After \<^verbatim>\<open>connectServer('files')\<close>, \<^verbatim>\<open>connectServer('docs')\<close> and
  \<^verbatim>\<open>removeClient('files')\<close> only \<open>docs\<close> is registered, and \<^verbatim>\<open>getAllTools\<close> returns the
  two tools of the removed \<open>files\<close> client next to the tool of \<open>docs\<close>: the tool cache
  still holds the entries that \<^verbatim>\<open>removeClient\<close> did not purge.
\<close>

theorem getAllTools_returns_removed_tools:
  "clients (snd (removeClient exampleWorld ''files'' docsAndFiles)) = [(''docs'', MCPClient 1 ''docs'')]
   \<and> getTools exampleWorld (MCPClient 1 ''docs'') = Inr [(''search'', Tool (Some ''Search the docs'') JNull)]
   \<and> fst (getAllTools exampleWorld (snd (removeClient exampleWorld ''files'' docsAndFiles)))
       = Inr [(''read_file'', Tool None JNull), (''delete_file'', Tool None JNull),
              (''search'', Tool (Some ''Search the docs'') JNull)]"
  by (simp add: getAllTools_def removeClient_eq docsAndFiles_eq exampleWorld_def clearClientCache_def)

text \<open>
  What does hold of \<^verbatim>\<open>getAllTools\<close> in every state: it writes no field of the manager,
  so a second call returns what the first did; and when the keys of the tool cache are
  distinct (they are the keys of a \<^verbatim>\<open>Map\<close>), a name is in the result exactly when the
  cache has it and its owner lists it, with the owner's definition.
\<close>

lemma collectTools_lookup:
  assumes "distinct (map fst entries)"
    and "collectTools w entries acc = Inr allTools"
  shows "map_of allTools name =
           (case map_of entries name of
              None \<Rightarrow> map_of acc name
            | Some client \<Rightarrow>
                (case getTools w client of
                   Inl e \<Rightarrow> None
                 | Inr clientTools \<Rightarrow>
                     (case map_of clientTools name of
                        None \<Rightarrow> map_of acc name
                      | Some toolDef \<Rightarrow> Some toolDef)))"
  using assms
proof (induction w entries acc rule: collectTools.induct)
  case (1 w allTools')
  then show ?case by simp
next
  case (2 w toolName client entries acc)
  from "2.prems"(2) obtain clientTools where ct: "getTools w client = Inr clientTools"
    by (cases "getTools w client") simp_all
  have d: "distinct (map fst entries)" and notin: "toolName \<notin> fst ` set entries"
    using "2.prems"(1) by simp_all
  then have none: "map_of entries toolName = None" by (simp add: map_of_eq_None_iff)
  show ?case
  proof (cases "map_of clientTools toolName")
    case None
    with "2.prems"(2) ct have run: "collectTools w entries acc = Inr allTools" by simp
    from "2.IH"(1) [OF ct None d run] show ?thesis
      using none ct None by (auto split: option.splits sum.splits)
  next
    case (Some toolDef)
    with "2.prems"(2) ct have run: "collectTools w entries (AList.update toolName toolDef acc) = Inr allTools"
      by simp
    from "2.IH"(2) [OF ct Some d run] show ?thesis
      using none ct Some by (auto simp: update_conv' split: option.splits sum.splits)
  qed
qed

theorem getAllTools_reflects_cache:
  "snd (getAllTools w m) = m
   \<and> getAllTools w (snd (getAllTools w m)) = getAllTools w m
   \<and> (distinct (map fst (toolToClientMap m)) \<longrightarrow>
        (\<forall>allTools. fst (getAllTools w m) = Inr allTools \<longrightarrow>
           (\<forall>name. map_of allTools name =
              (case map_of (toolToClientMap m) name of
                 None \<Rightarrow> None
               | Some client \<Rightarrow>
                   (case getTools w client of
                      Inl e \<Rightarrow> None
                    | Inr clientTools \<Rightarrow> map_of clientTools name)))))"
proof (intro conjI impI allI)
  show "snd (getAllTools w m) = m" by (simp add: getAllTools_def)
  then show "getAllTools w (snd (getAllTools w m)) = getAllTools w m" by simp
next
  fix allTools name
  assume d: "distinct (map fst (toolToClientMap m))" and r: "fst (getAllTools w m) = Inr allTools"
  then have "collectTools w (toolToClientMap m) [] = Inr allTools" by (simp add: getAllTools_def)
  from collectTools_lookup [OF d this, of name]
  show "map_of allTools name =
              (case map_of (toolToClientMap m) name of
                 None \<Rightarrow> None
               | Some client \<Rightarrow>
                   (case getTools w client of
                      Inl e \<Rightarrow> None
                    | Inr clientTools \<Rightarrow> map_of clientTools name))"
    by (auto split: option.splits sum.splits)
qed

theorem getAllTools_reflects_cache_witness:
  "distinct (map fst (toolToClientMap docsAndFiles))
   \<and> getAllTools exampleWorld docsAndFiles =
       (Inr [(''read_file'', Tool None JNull), (''delete_file'', Tool None JNull),
             (''search'', Tool (Some ''Search the docs'') JNull)], docsAndFiles)
   \<and> getAllTools exampleWorld (snd (getAllTools exampleWorld docsAndFiles))
       = getAllTools exampleWorld docsAndFiles"
  using getAllTools_reflects_cache [of exampleWorld docsAndFiles]
  by (simp add: getAllTools_def docsAndFiles_eq exampleWorld_def)

text \<open>
  What does hold of removal: \<^verbatim>\<open>disconnectAll\<close> empties the registry, the recorded errors
  and the three caches whatever the clients answer; \<^verbatim>\<open>removeClient\<close> never throws and
  unregisters the name, and it changes nothing for a name that is neither registered nor
  recorded as failed.
\<close>

theorem disconnectAll_clears:
  "fst (disconnectAll w m) = Inr ()
   \<and> clients (snd (disconnectAll w m)) = []
   \<and> connectionErrors (snd (disconnectAll w m)) = []
   \<and> toolToClientMap (snd (disconnectAll w m)) = []
   \<and> promptToClientMap (snd (disconnectAll w m)) = []
   \<and> resourceToClientMap (snd (disconnectAll w m)) = []"
  by (simp add: disconnectAll_def Let_def)

theorem removeClient_best_effort:
  "fst (removeClient w name m) = Inr ()
   \<and> name \<notin> fst ` set (clients (snd (removeClient w name m)))
   \<and> (name \<notin> fst ` set (clients m) \<and> name \<notin> fst ` set (connectionErrors m)
        \<longrightarrow> snd (removeClient w name m) = m)"
proof (intro conjI impI)
  show "fst (removeClient w name m) = Inr ()"
    by (simp add: removeClient_eq Let_def split: option.splits)
  show "name \<notin> fst ` set (clients (snd (removeClient w name m)))"
    by (auto simp: removeClient_eq Let_def clearClientCache_def delete_notin_dom map_of_eq_None_iff
        split: option.splits)
  assume "name \<notin> fst ` set (clients m) \<and> name \<notin> fst ` set (connectionErrors m)"
  then have "map_of (clients m) name = None" "map_of (connectionErrors m) name = None"
    by (simp_all add: map_of_eq_None_iff)
  then show "snd (removeClient w name m) = m"
    by (simp add: removeClient_eq)
qed

theorem removeClient_best_effort_witness:
  "''wiki'' \<notin> fst ` set (clients filesManager) \<and> ''wiki'' \<notin> fst ` set (connectionErrors filesManager)
   \<and> removeClient exampleWorld ''wiki'' filesManager = (Inr (), filesManager)"
  using removeClient_best_effort [of exampleWorld "''wiki''" filesManager]
  by (simp add: filesManager_eq removeClient_eq)

subsection \<open>initializeFromConfig\<close>

text \<open>
  C10. With no server configured \<^verbatim>\<open>initializeFromConfig\<close> returns at once, whatever the
  servers would answer and whatever the schedule: no client object is made, and the
  manager is the one it started from.
\<close>

theorem initializeFromConfig_empty:
  "initializeFromConfig w schedule [] m = Some (Inr (), m)"
  by (simp add: initializeFromConfig_def)

subsection \<open>The invariant of a run\<close>

lemma dom_setAll: "fst ` set (setAll ks client al) = fst ` set al \<union> set ks"
  unfolding setAll_def by (induction ks arbitrary: al) (auto simp: dom_update)

lemma clearClientCache_absent: "map_of (clients m) name = None \<Longrightarrow> clearClientCache name m = m"
  by (simp add: clearClientCache_def)

lemma map_of_setProperty_other:
  "n \<noteq> key \<Longrightarrow> map_of (setProperty key v obj) n = map_of obj n"
  by (simp add: setProperty_def update_conv')

lemma map_of_setProperty_same:
  "key \<noteq> ''__proto__'' \<Longrightarrow> map_of (setProperty key v obj) key = Some v"
  by (simp add: setProperty_def update_conv')

lemma settle_clients_other:
  "n \<noteq> name \<Longrightarrow> map_of (clients (manager (settle w name s))) n = map_of (clients (manager s)) n"
  by (auto simp: settle_def registerClient_def clearClientCache_def connectFailed_def cacheTools_def
      cachePrompts_def cacheResources_def Let_def update_conv' delete_conv' map_of_setProperty_other
      split: option.splits promise.splits sum.splits)

lemma settle_errors_other:
  "n \<noteq> name \<Longrightarrow> map_of (connectionErrors (manager (settle w name s))) n = map_of (connectionErrors (manager s)) n"
  by (auto simp: settle_def registerClient_def clearClientCache_def connectFailed_def cacheTools_def
      cachePrompts_def cacheResources_def Let_def update_conv' delete_conv' map_of_setProperty_other
      split: option.splits promise.splits sum.splits)

lemma settle_successful:
  "set (successfulConnections s) \<subseteq> set (successfulConnections (settle w name s))
   \<and> set (successfulConnections (settle w name s)) \<subseteq> insert name (set (successfulConnections s))"
  by (auto simp: settle_def split: option.splits promise.splits sum.splits)

lemma settle_tools_grow:
  "(\<forall>cl c. map_of (connectionPromises s) name = Some (Connecting cl c) \<longrightarrow> map_of (clients (manager s)) name = None)
   \<Longrightarrow> fst ` set (toolToClientMap (manager s)) \<subseteq> fst ` set (toolToClientMap (manager (settle w name s)))"
  by (auto simp: settle_def registerClient_def clearClientCache_absent connectFailed_def cacheTools_def
      cachePrompts_def cacheResources_def Let_def dom_setAll
      split: option.splits promise.splits sum.splits)

lemma settle_promises_other:
  "n \<noteq> name \<Longrightarrow> map_of (connectionPromises (settle w name s)) n = map_of (connectionPromises s) n"
  by (auto simp: settle_def update_conv' split: option.splits promise.splits sum.splits)

lemma map_of_Some_key: "map_of al k = Some v \<Longrightarrow> k \<in> fst ` set al"
  by (metis domI dom_map_of_conv_image_fst)

lemma settle_promise_keys:
  "fst ` set (connectionPromises (settle w name s)) = fst ` set (connectionPromises s)"
  by (auto simp: settle_def dom_update map_of_Some_key split: option.splits promise.splits sum.splits)

lemma toolsCached_mono:
  "fst ` set (toolToClientMap m) \<subseteq> fst ` set (toolToClientMap m') \<Longrightarrow> toolsCached w m cl \<Longrightarrow> toolsCached w m' cl"
  by (auto simp: toolsCached_def split: sum.splits)

lemma toolsCached_iff:
  "toolsCached w m cl \<longleftrightarrow>
     (\<forall>tools. getTools w cl = Inr tools \<longrightarrow> set (map fst tools) \<subseteq> fst ` set (toolToClientMap m))"
  by (cases "getTools w cl") (simp_all add: toolsCached_def)

lemma good_frame:
  assumes "good w reg s n c p"
    and "map_of (clients (manager s')) n = map_of (clients (manager s)) n"
    and "map_of (connectionErrors (manager s')) n = map_of (connectionErrors (manager s)) n"
    and "n \<in> set (successfulConnections s') \<longleftrightarrow> n \<in> set (successfulConnections s)"
    and "fst ` set (toolToClientMap (manager s)) \<subseteq> fst ` set (toolToClientMap (manager s'))"
  shows "good w reg s' n c p"
  using assms by (cases p) (auto intro: toolsCached_mono)

lemma good_settle_same:
  assumes "map_of (connectionPromises s) n = Some p" and "good w reg s n c p"
  shows "\<exists>p'. map_of (connectionPromises (settle w n s)) n = Some p' \<and> good w reg (settle w n s) n c p'"
proof (cases p)
  case (Connecting cl c')
  with assms show ?thesis
    by (cases "connect w c n")
       (auto simp: settle_def registerClient_def clearClientCache_absent connectFailed_def
          Let_def update_conv' delete_conv' map_of_setProperty_same)
next
  case (GettingTools cl)
  with assms show ?thesis
    by (cases "getTools w cl")
       (auto simp: settle_def cacheTools_def update_conv' toolsCached_def dom_setAll)
next
  case (ListingPrompts cl)
  with assms show ?thesis
    by (auto simp: settle_def cachePrompts_def update_conv' toolsCached_def split: sum.splits)
next
  case (ListingResources cl)
  with assms show ?thesis
    by (auto simp: settle_def cacheResources_def update_conv' toolsCached_def split: sum.splits)
next
  case Resolved
  with assms show ?thesis by (auto simp: settle_def)
next
  case Rejected
  with assms show ?thesis by (auto simp: settle_def)
qed

lemma inv_settle:
  assumes "inv w reg cfgs s"
  shows "inv w reg cfgs (settle w name s)"
  unfolding inv_def
proof (intro conjI allI impI)
  show "fst ` set (connectionPromises (settle w name s)) \<subseteq> fst ` set cfgs"
    using assms by (simp add: settle_promise_keys inv_def)
next
  fix n c assume nc: "(n, c) \<in> set cfgs"
  with assms obtain p where p: "map_of (connectionPromises s) n = Some p" "good w reg s n c p"
    unfolding inv_def by blast
  show "\<exists>p. map_of (connectionPromises (settle w name s)) n = Some p \<and> good w reg (settle w name s) n c p"
  proof (cases "n = name")
    case True
    with good_settle_same [OF p] show ?thesis by simp
  next
    case False
    have conn: "\<forall>cl c'. map_of (connectionPromises s) name = Some (Connecting cl c') \<longrightarrow> map_of (clients (manager s)) name = None"
    proof (intro allI impI)
      fix cl c' assume q: "map_of (connectionPromises s) name = Some (Connecting cl c')"
      then have "name \<in> fst ` set (connectionPromises s)"
        by (rule map_of_Some_key)
      with assms obtain c'' where "(name, c'') \<in> set cfgs" unfolding inv_def by auto
      with assms q have "good w reg s name c'' (Connecting cl c')" unfolding inv_def by fastforce
      then show "map_of (clients (manager s)) name = None" by simp
    qed
    have "good w reg (settle w name s) n c p"
    proof (rule good_frame [OF p(2)])
      show "map_of (clients (manager (settle w name s))) n = map_of (clients (manager s)) n"
        using False by (rule settle_clients_other)
      show "map_of (connectionErrors (manager (settle w name s))) n = map_of (connectionErrors (manager s)) n"
        using False by (rule settle_errors_other)
      show "n \<in> set (successfulConnections (settle w name s)) \<longleftrightarrow> n \<in> set (successfulConnections s)"
        using False settle_successful [of s w name] by auto
      show "fst ` set (toolToClientMap (manager s)) \<subseteq> fst ` set (toolToClientMap (manager (settle w name s)))"
        using conn by (rule settle_tools_grow)
    qed
    with p(1) False show ?thesis by (simp add: settle_promises_other)
  qed
qed

lemma inv_fold: "inv w reg cfgs s \<Longrightarrow> inv w reg cfgs (fold (settle w) schedule s)"
  by (induction schedule arbitrary: s) (auto intro: inv_settle)

lemma start_manager [simp]:
  "clients (manager (start name config s)) = clients (manager s)"
  "connectionErrors (manager (start name config s)) = connectionErrors (manager s)"
  "toolToClientMap (manager (start name config s)) = toolToClientMap (manager s)"
  "promptToClientMap (manager (start name config s)) = promptToClientMap (manager s)"
  "resourceToClientMap (manager (start name config s)) = resourceToClientMap (manager s)"
  by (simp_all add: start_def)

lemma startAll_manager_all:
  "clients (manager (startAll cfgs s)) = clients (manager s)
   \<and> connectionErrors (manager (startAll cfgs s)) = connectionErrors (manager s)
   \<and> toolToClientMap (manager (startAll cfgs s)) = toolToClientMap (manager s)
   \<and> promptToClientMap (manager (startAll cfgs s)) = promptToClientMap (manager s)
   \<and> resourceToClientMap (manager (startAll cfgs s)) = resourceToClientMap (manager s)"
  by (induction cfgs s rule: startAll.induct) simp_all

lemma startAll_manager [simp]:
  "clients (manager (startAll cfgs s)) = clients (manager s)"
  "connectionErrors (manager (startAll cfgs s)) = connectionErrors (manager s)"
  "toolToClientMap (manager (startAll cfgs s)) = toolToClientMap (manager s)"
  "promptToClientMap (manager (startAll cfgs s)) = promptToClientMap (manager s)"
  "resourceToClientMap (manager (startAll cfgs s)) = resourceToClientMap (manager s)"
  using startAll_manager_all [of cfgs s] by simp_all

lemma start_successful:
  "set (successfulConnections (start name config s))
     = set (successfulConnections s) \<union> ({name} \<inter> fst ` set (clients (manager s)))"
  by (simp add: start_def)

lemma startAll_keys:
  "map fst (connectionPromises (startAll cfgs s)) = map fst (connectionPromises s) @ map fst cfgs"
  by (induction cfgs s rule: startAll.induct) (auto simp: start_def)

lemma startAll_old:
  "n \<in> fst ` set (connectionPromises s) \<Longrightarrow>
     map_of (connectionPromises (startAll cfgs s)) n = map_of (connectionPromises s) n"
proof (induction cfgs arbitrary: s)
  case Nil
  then show ?case by simp
next
  case (Cons a cfgs)
  obtain name config where a: "a = (name, config)" by (cases a)
  from Cons.prems obtain p where p: "map_of (connectionPromises s) n = Some p"
    by (metis domD dom_map_of_conv_image_fst)
  have "n \<in> fst ` set (connectionPromises (start name config s))"
    using Cons.prems by (auto simp: start_def)
  then have "map_of (connectionPromises (startAll cfgs (start name config s))) n
      = map_of (connectionPromises (start name config s)) n"
    by (rule Cons.IH)
  also have "\<dots> = map_of (connectionPromises s) n"
    using p by (simp add: start_def map_add_def)
  finally show ?case by (simp add: a)
qed

lemma startAll_successful:
  "set (successfulConnections (startAll cfgs s))
     = set (successfulConnections s) \<union> (fst ` set cfgs \<inter> fst ` set (clients (manager s)))"
proof (induction cfgs s rule: startAll.induct)
  case (1 s)
  then show ?case by simp
next
  case (2 name config serverConfigs s)
  then show ?case by (simp add: start_successful) blast
qed

lemma startAll_new:
  assumes "distinct (map fst cfgs)"
    and "fst ` set cfgs \<inter> fst ` set (connectionPromises s) = {}"
    and "(n, c) \<in> set cfgs"
  shows "\<exists>p. map_of (connectionPromises (startAll cfgs s)) n = Some p
           \<and> (if n \<in> fst ` set (clients (manager s)) then p = Resolved
               else \<exists>k. p = Connecting (MCPClient k n) c)"
  using assms
proof (induction cfgs arbitrary: s)
  case Nil
  then show ?case by simp
next
  case (Cons a cfgs)
  obtain name config where a: "a = (name, config)" by (cases a)
  show ?case
  proof (cases "(n, c) = a")
    case True
    then have nc: "n = name" "c = config" using a by auto
    have notin: "name \<notin> fst ` set (connectionPromises s)"
      using Cons.prems(2) a by auto
    then have none: "map_of (connectionPromises s) name = None"
      by (simp add: map_of_eq_None_iff)
    have "name \<in> fst ` set (connectionPromises (start name config s))"
      by (auto simp: start_def)
    then have "map_of (connectionPromises (startAll cfgs (start name config s))) name
        = map_of (connectionPromises (start name config s)) name"
      by (rule startAll_old)
    then show ?thesis
      using none by (auto simp: a nc start_def map_add_def)
  next
    case False
    with Cons.prems(3) have mem: "(n, c) \<in> set cfgs" by simp
    have d: "distinct (map fst cfgs)" using Cons.prems(1) by simp
    have "name \<notin> fst ` set cfgs" using Cons.prems(1) a by auto
    then have disj: "fst ` set cfgs \<inter> fst ` set (connectionPromises (start name config s)) = {}"
      using Cons.prems(2) a by (auto simp: start_def)
    from Cons.IH [OF d disj mem] show ?thesis by (simp add: a)
  qed
qed

lemma inv_start:
  assumes "distinct (map fst cfgs)"
  shows "inv w (fst ` set (clients m)) cfgs
           (startAll cfgs \<lparr>manager = m, connectionPromises = [], successfulConnections = []\<rparr>)"
    (is "inv w ?reg cfgs (startAll cfgs ?s0)")
  unfolding inv_def
proof (intro conjI allI impI)
  show "fst ` set (connectionPromises (startAll cfgs ?s0)) \<subseteq> fst ` set cfgs"
  proof -
    have "map fst (connectionPromises (startAll cfgs ?s0)) = map fst cfgs"
      by (simp add: startAll_keys)
    then have "set (map fst (connectionPromises (startAll cfgs ?s0))) = set (map fst cfgs)"
      by simp
    then show ?thesis by simp
  qed
next
  fix n c assume nc: "(n, c) \<in> set cfgs"
  from startAll_new [OF assms _ nc, of ?s0]
  obtain p where p: "map_of (connectionPromises (startAll cfgs ?s0)) n = Some p"
    "if n \<in> ?reg then p = Resolved else \<exists>k. p = Connecting (MCPClient k n) c"
    by auto
  have "good w ?reg (startAll cfgs ?s0) n c p"
  proof (cases "n \<in> ?reg")
    case True
    have "n \<in> fst ` set cfgs" using nc by force
    with True have "n \<in> set (successfulConnections (startAll cfgs ?s0))"
      by (simp add: startAll_successful)
    moreover have "p = Resolved" using True p(2) by simp
    ultimately show ?thesis using True by simp
  next
    case False
    then have "map_of (clients m) n = None" by (simp add: map_of_eq_None_iff)
    moreover have "n \<notin> set (successfulConnections (startAll cfgs ?s0))"
      using False by (simp add: startAll_successful)
    moreover obtain k where "p = Connecting (MCPClient k n) c" using False p(2) by auto
    ultimately show ?thesis using False by simp
  qed
  with p(1) show "\<exists>p. map_of (connectionPromises (startAll cfgs ?s0)) n = Some p
      \<and> good w ?reg (startAll cfgs ?s0) n c p" by blast
qed

lemma inv_run:
  "distinct (map fst cfgs) \<Longrightarrow> inv w (fst ` set (clients m)) cfgs (run w schedule cfgs m)"
  unfolding run_def by (rule inv_fold) (rule inv_start)

lemma settle_progress:
  "remaining (map_of (connectionPromises (settle w name s)) name)
     \<le> remaining (map_of (connectionPromises s) name) - 1"
  by (auto simp: settle_def update_conv' split: option.splits promise.splits sum.splits)

lemma fold_progress:
  "remaining (map_of (connectionPromises (fold (settle w) schedule s)) n)
     \<le> remaining (map_of (connectionPromises s) n) - count_list schedule n"
proof (induction schedule arbitrary: s)
  case Nil
  then show ?case by simp
next
  case (Cons name schedule)
  show ?case
  proof (cases "name = n")
    case True
    have "remaining (map_of (connectionPromises (fold (settle w) schedule (settle w n s))) n)
        \<le> remaining (map_of (connectionPromises (settle w n s)) n) - count_list schedule n"
      by (rule Cons.IH)
    also have "\<dots> \<le> (remaining (map_of (connectionPromises s) n) - 1) - count_list schedule n"
      using settle_progress [of w n s] by (rule diff_le_mono)
    finally show ?thesis using True by simp
  next
    case False
    then show ?thesis using Cons.IH [of "settle w name s"] by (simp add: settle_promises_other)
  qed
qed

lemma remaining_le_4: "remaining p \<le> 4"
  by (cases p rule: remaining.cases) simp_all

lemma remaining_0_settled: "remaining (Some p) = 0 \<Longrightarrow> settled p"
  by (cases p) simp_all

lemma settle_promise_keys_list:
  "map fst (connectionPromises (settle w name s)) = map fst (connectionPromises s)"
  by (auto simp: settle_def update_keys map_of_Some_key split: option.splits promise.splits sum.splits)

lemma fold_promise_keys_list:
  "map fst (connectionPromises (fold (settle w) schedule s)) = map fst (connectionPromises s)"
  by (induction schedule arbitrary: s) (simp_all add: settle_promise_keys_list)

lemma run_promise_keys: "map fst (connectionPromises (run w schedule cfgs m)) = map fst cfgs"
  by (simp add: run_def fold_promise_keys_list startAll_keys)

lemma run_all_settled:
  assumes d: "distinct (map fst cfgs)"
    and enough: "\<forall>name \<in> set (map fst cfgs). 4 \<le> count_list schedule name"
  shows "list_all (\<lambda>(name, p). settled p) (connectionPromises (run w schedule cfgs m))"
  unfolding list_all_iff
proof (intro ballI)
  fix x assume x: "x \<in> set (connectionPromises (run w schedule cfgs m))"
  obtain n p where np: "x = (n, p)" by (cases x)
  have keys: "map fst (connectionPromises (run w schedule cfgs m)) = map fst cfgs"
    by (rule run_promise_keys)
  with d have "distinct (map fst (connectionPromises (run w schedule cfgs m)))" by simp
  with x np have look: "map_of (connectionPromises (run w schedule cfgs m)) n = Some p" by simp
  have "n \<in> set (map fst (connectionPromises (run w schedule cfgs m)))" using x np by force
  then have "n \<in> set (map fst cfgs)" unfolding keys .
  with enough have "4 \<le> count_list schedule n" by blast
  moreover have "remaining (map_of (connectionPromises (run w schedule cfgs m)) n)
      \<le> remaining (map_of (connectionPromises
            (startAll cfgs \<lparr>manager = m, connectionPromises = [], successfulConnections = []\<rparr>)) n)
          - count_list schedule n"
    unfolding run_def by (rule fold_progress)
  ultimately have "remaining (Some p) = 0"
    using look remaining_le_4 [of "map_of (connectionPromises
            (startAll cfgs \<lparr>manager = m, connectionPromises = [], successfulConnections = []\<rparr>)) n"]
    by simp
  then show "case x of (name, p) \<Rightarrow> settled p" using np by (simp add: remaining_0_settled)
qed

text \<open>What the invariant says of a server once its promise is settled.\<close>

lemma run_settled_server:
  assumes d: "distinct (map fst cfgs)"
    and all: "list_all (\<lambda>(name, p). settled p) (connectionPromises (run w schedule cfgs m))"
    and nc: "(n, c) \<in> set cfgs"
  shows "(n \<in> set (successfulConnections (run w schedule cfgs m))
            \<longleftrightarrow> n \<in> fst ` set (clients m) \<or> connect w c n = None)
       \<and> (\<forall>e. n \<notin> fst ` set (clients m) \<and> connect w c n = Some e \<longrightarrow>
              (n \<noteq> ''__proto__'' \<longrightarrow>
                 map_of (connectionErrors (manager (run w schedule cfgs m))) n = Some (errorMessage e))
            \<and> map_of (clients (manager (run w schedule cfgs m))) n = None)
       \<and> (n \<notin> fst ` set (clients m) \<and> connect w c n = None \<longrightarrow>
              (\<exists>cl. map_of (clients (manager (run w schedule cfgs m))) n = Some cl \<and> serverName cl = n
                   \<and> toolsCached w (manager (run w schedule cfgs m)) cl))"
proof -
  let ?s = "run w schedule cfgs m"
  from inv_run [OF d, of w m schedule] nc
  obtain p where p: "map_of (connectionPromises ?s) n = Some p" "good w (fst ` set (clients m)) ?s n c p"
    unfolding inv_def by blast
  from p(1) have "(n, p) \<in> set (connectionPromises ?s)" by (rule map_of_SomeD)
  with all have "settled p" by (auto simp: list_all_iff)
  then consider "p = Resolved" | "p = Rejected" by (cases p) simp_all
  then show ?thesis
  proof cases
    case 1
    with p(2) show ?thesis by auto
  next
    case 2
    with p(2) show ?thesis by auto
  qed
qed

lemma failedStrictServers_eq:
  assumes d: "distinct (map fst cfgs)"
    and all: "list_all (\<lambda>(name, p). settled p) (connectionPromises (run w schedule cfgs m))"
  shows "filter (\<lambda>name. name \<notin> set (successfulConnections (run w schedule cfgs m))) (strictServers cfgs)
           = map fst (failedStrict w m cfgs)"
proof -
  let ?s = "run w schedule cfgs m"
  have "filter (\<lambda>name. name \<notin> set (successfulConnections ?s)) (strictServers cfgs)
      = map fst (filter (\<lambda>(name, config). effectiveMode config = strict \<and> name \<notin> set (successfulConnections ?s)) cfgs)"
    by (simp add: strictServers_def filter_map comp_def case_prod_unfold conj_commute)
  also have "filter (\<lambda>(name, config). effectiveMode config = strict \<and> name \<notin> set (successfulConnections ?s)) cfgs
      = failedStrict w m cfgs"
    unfolding failedStrict_def
  proof (rule filter_cong [OF refl])
    fix x assume x: "x \<in> set cfgs"
    obtain n c where nc: "x = (n, c)" by (cases x)
    from run_settled_server [OF d all, of n c] x nc
    have "n \<in> set (successfulConnections ?s) \<longleftrightarrow> n \<in> fst ` set (clients m) \<or> connect w c n = None"
      by simp
    then show "(case x of (name, config) \<Rightarrow> effectiveMode config = strict \<and> name \<notin> set (successfulConnections ?s))
        = (case x of (name, config) \<Rightarrow> effectiveMode config = strict \<and> failsToConnect w m (name, config))"
      by (auto simp: nc failsToConnect_def)
  qed
  finally show ?thesis .
qed

lemma strictError_eq:
  assumes d: "distinct (map fst cfgs)"
    and all: "list_all (\<lambda>(name, p). settled p) (connectionPromises (run w schedule cfgs m))"
    and np: "''__proto__'' \<notin> fst ` set cfgs"
  shows "map (strictError (manager (run w schedule cfgs m)) \<circ> fst) (failedStrict w m cfgs)
           = map (failureLine w) (failedStrict w m cfgs)"
proof (rule map_cong [OF refl])
  fix x assume "x \<in> set (failedStrict w m cfgs)"
  then have x: "x \<in> set cfgs" and f: "failsToConnect w m x" by (auto simp: failedStrict_def)
  obtain n c where nc: "x = (n, c)" by (cases x)
  from f nc obtain e where e: "n \<notin> fst ` set (clients m)" "connect w c n = Some e"
    by (auto simp: failsToConnect_def)
  from x nc np have "n \<noteq> ''__proto__''" by force
  with run_settled_server [OF d all, of n c] x nc e
  have "map_of (connectionErrors (manager (run w schedule cfgs m))) n = Some (errorMessage e)" by simp
  then show "(strictError (manager (run w schedule cfgs m)) \<circ> fst) x = failureLine w x"
    using e by (simp add: nc strictError_def failureLine_def getProperty_def)
qed

lemma initializeFromConfig_Some:
  assumes d: "distinct (map fst cfgs)"
    and ne: "cfgs \<noteq> []"
    and some: "initializeFromConfig w schedule cfgs m = Some (r, m')"
  shows "list_all (\<lambda>(name, p). settled p) (connectionPromises (run w schedule cfgs m))"
    and "m' = manager (run w schedule cfgs m)"
    and "r = (if failedStrict w m cfgs = [] then Inr ()
              else Inl (Error (''Failed to connect to required strict servers: '' @
                     join ''; '' (map (strictError m' \<circ> fst) (failedStrict w m cfgs)))))"
proof -
  show all: "list_all (\<lambda>(name, p). settled p) (connectionPromises (run w schedule cfgs m))"
    using some ne by (auto simp: initializeFromConfig_def Let_def split: if_splits)
  show m': "m' = manager (run w schedule cfgs m)"
    using some ne by (auto simp: initializeFromConfig_def Let_def split: if_splits)
  show "r = (if failedStrict w m cfgs = [] then Inr ()
              else Inl (Error (''Failed to connect to required strict servers: '' @
                     join ''; '' (map (strictError m' \<circ> fst) (failedStrict w m cfgs)))))"
    using some ne all
    by (simp add: initializeFromConfig_def Let_def failedStrictServers_eq [OF d all] m'
          split: if_splits)
qed

lemma initializeFromConfig_message:
  assumes d: "distinct (map fst cfgs)"
    and np: "''__proto__'' \<notin> fst ` set cfgs"
    and some: "initializeFromConfig w schedule cfgs m = Some (r, m')"
  shows "r = (if failedStrict w m cfgs = [] then Inr ()
              else Inl (Error (''Failed to connect to required strict servers: '' @
                     join ''; '' (map (failureLine w) (failedStrict w m cfgs)))))"
proof (cases "cfgs = []")
  case True
  with some show ?thesis by (simp add: initializeFromConfig_def failedStrict_def)
next
  case False
  note res = initializeFromConfig_Some [OF d False some]
  from res(3) show ?thesis
    by (simp only: res(2) strictError_eq [OF d res(1) np])
qed

lemma initializeFromConfig_returns:
  assumes "distinct (map fst cfgs)"
    and "\<forall>name \<in> set (map fst cfgs). 4 \<le> count_list schedule name"
  shows "initializeFromConfig w schedule cfgs m \<noteq> None"
  using run_all_settled [OF assms, of w m]
  by (simp add: initializeFromConfig_def Let_def)

subsection \<open>Strict and lenient servers\<close>

lemmas init_defs = initializeFromConfig_def run_def start_def settle_def strictServers_def
  effectiveMode_def strictError_def getProperty_def

lemma strictAndLenient_run:
  "initializeFromConfig exampleWorld interleaved strictAndLenient newManager =
     Some (Inl (Error ''Failed to connect to required strict servers: fs: ENOENT''),
       \<lparr>clients = [(''docs'', MCPClient 1 ''docs'')],
        connectionErrors = [(''wiki'', ''timed out''), (''fs'', ''ENOENT'')],
        toolToClientMap = [(''search'', MCPClient 1 ''docs'')],
        promptToClientMap = [(''summarize'', MCPClient 1 ''docs'')],
        resourceToClientMap = [],
        allocated = 3\<rparr>)"
  by (simp add: strictAndLenient_def interleaved_def exampleWorld_def init_defs manager_defs)

lemma recorded_failures:
  assumes d: "distinct (map fst cfgs)"
    and some: "initializeFromConfig w schedule cfgs m = Some (r, m')"
    and sc: "sc \<in> set cfgs"
    and e: "fst sc \<notin> fst ` set (clients m)" "connect w (snd sc) (fst sc) = Some e"
    and np: "fst sc \<noteq> ''__proto__''"
  shows "map_of (connectionErrors m') (fst sc) = Some (errorMessage e)"
proof -
  from sc have ne: "cfgs \<noteq> []" by auto
  note res = initializeFromConfig_Some [OF d ne some]
  from sc have "(fst sc, snd sc) \<in> set cfgs" by simp
  from run_settled_server [OF d res(1) this] e np show ?thesis by (simp add: res(2))
qed

text \<open>
  What holds when no server is named \<^verbatim>\<open>__proto__\<close>. For such a configuration with
  distinct names and any schedule: when \<^verbatim>\<open>initializeFromConfig\<close> returns, every promise
  is settled (all attempts are awaited, none is cut short by another's failure); the
  result is the error \<^verbatim>\<open>Failed to connect to required strict servers: ...\<close> listing
  exactly the strict servers that failed to connect, each with its cause, when there is
  one, and success otherwise; so failures of servers that are not strict never make it
  fail; and every failure, strict or lenient, is recorded in \<open>connectionErrors\<close>. A
  schedule in which every server settles four times lets the call return.
\<close>

theorem initializeFromConfig_strict_lenient:
  assumes "distinct (map fst serverConfigs)"
    and "''__proto__'' \<notin> fst ` set serverConfigs"
  shows "(\<forall>r m'. initializeFromConfig w schedule serverConfigs m = Some (r, m') \<longrightarrow>
            (serverConfigs \<noteq> [] \<longrightarrow>
               list_all (\<lambda>(name, p). settled p) (connectionPromises (run w schedule serverConfigs m)))
          \<and> r = (if failedStrict w m serverConfigs = [] then Inr ()
                 else Inl (Error (''Failed to connect to required strict servers: '' @
                        join ''; '' (map (failureLine w) (failedStrict w m serverConfigs)))))
          \<and> ((\<forall>sc \<in> set serverConfigs. failsToConnect w m sc \<longrightarrow> effectiveMode (snd sc) \<noteq> strict)
                \<longrightarrow> r = Inr ())
          \<and> (\<forall>sc \<in> set serverConfigs. \<forall>e.
                fst sc \<notin> fst ` set (clients m) \<and> connect w (snd sc) (fst sc) = Some e \<longrightarrow>
                map_of (connectionErrors m') (fst sc) = Some (errorMessage e)))
       \<and> ((\<forall>name \<in> set (map fst serverConfigs). 4 \<le> count_list schedule name) \<longrightarrow>
            initializeFromConfig w schedule serverConfigs m \<noteq> None)"
proof (intro conjI allI impI)
  fix r m' assume some: "initializeFromConfig w schedule serverConfigs m = Some (r, m')"
  show r: "r = (if failedStrict w m serverConfigs = [] then Inr ()
                 else Inl (Error (''Failed to connect to required strict servers: '' @
                        join ''; '' (map (failureLine w) (failedStrict w m serverConfigs)))))"
    using assms some by (rule initializeFromConfig_message)
  show "\<forall>sc \<in> set serverConfigs. \<forall>e.
          fst sc \<notin> fst ` set (clients m) \<and> connect w (snd sc) (fst sc) = Some e \<longrightarrow>
          map_of (connectionErrors m') (fst sc) = Some (errorMessage e)"
  proof (intro ballI allI impI)
    fix sc e
    assume sc: "sc \<in> set serverConfigs"
      and e: "fst sc \<notin> fst ` set (clients m) \<and> connect w (snd sc) (fst sc) = Some e"
    from sc assms(2) have "fst sc \<noteq> ''__proto__''" by force
    with recorded_failures [OF assms(1) some sc] e
    show "map_of (connectionErrors m') (fst sc) = Some (errorMessage e)" by blast
  qed
  {
    assume "\<forall>sc \<in> set serverConfigs. failsToConnect w m sc \<longrightarrow> effectiveMode (snd sc) \<noteq> strict"
    then have "failedStrict w m serverConfigs = []"
      by (auto simp: failedStrict_def filter_empty_conv)
    with r show "r = Inr ()" by simp
  }
  {
    assume "serverConfigs \<noteq> []"
    from initializeFromConfig_Some(1) [OF assms(1) this some]
    show "list_all (\<lambda>(name, p). settled p) (connectionPromises (run w schedule serverConfigs m))" .
  }
next
  assume "\<forall>name \<in> set (map fst serverConfigs). 4 \<le> count_list schedule name"
  with assms(1) show "initializeFromConfig w schedule serverConfigs m \<noteq> None"
    by (rule initializeFromConfig_returns)
qed

theorem initializeFromConfig_strict_lenient_witness:
  "distinct (map fst strictAndLenient)
   \<and> list_all (\<lambda>name. 4 \<le> count_list interleaved name) (map fst strictAndLenient)
   \<and> map fst (failedStrict exampleWorld newManager strictAndLenient) = [''fs'']
   \<and> map fst (filter (failsToConnect exampleWorld newManager) strictAndLenient) = [''fs'', ''wiki'']
   \<and> initializeFromConfig exampleWorld interleaved strictAndLenient newManager =
       Some (Inl (Error ''Failed to connect to required strict servers: fs: ENOENT''),
         \<lparr>clients = [(''docs'', MCPClient 1 ''docs'')],
          connectionErrors = [(''wiki'', ''timed out''), (''fs'', ''ENOENT'')],
          toolToClientMap = [(''search'', MCPClient 1 ''docs'')],
          promptToClientMap = [(''summarize'', MCPClient 1 ''docs'')],
          resourceToClientMap = [],
          allocated = 3\<rparr>)"
proof -
  have d: "distinct (map fst strictAndLenient)" by (simp add: strictAndLenient_def)
  have np: "''__proto__'' \<notin> fst ` set strictAndLenient" by (simp add: strictAndLenient_def)
  note inst = initializeFromConfig_strict_lenient [OF d np, of exampleWorld interleaved newManager]
  have "failedStrict exampleWorld newManager strictAndLenient = [(''fs'', \<lparr>connectionMode = Some strict\<rparr>)]"
    by (simp add: failedStrict_def failsToConnect_def strictAndLenient_def exampleWorld_def
        newManager_def effectiveMode_def)
  moreover have "map fst (filter (failsToConnect exampleWorld newManager) strictAndLenient) = [''fs'', ''wiki'']"
    by (simp add: failsToConnect_def strictAndLenient_def exampleWorld_def newManager_def)
  moreover have "list_all (\<lambda>name. 4 \<le> count_list interleaved name) (map fst strictAndLenient)"
    by (simp add: strictAndLenient_def interleaved_def)
  ultimately show ?thesis using d inst strictAndLenient_run by simp
qed

text \<open>
  C1. The cause of a failed strict server is lost when the server is named
  \<^verbatim>\<open>__proto__\<close>. \<open>connectionErrors\<close> is a plain object: the assignment
  \<^verbatim>\<open>this.connectionErrors[name] = errorMsg\<close> of \<^verbatim>\<open>connectServer\<close> records nothing
  under that name, and \<^verbatim>\<open>this.connectionErrors[name] || 'Unknown error'\<close> reads the
  prototype of the object. The server is strict and its connection is refused with
  \<^verbatim>\<open>ECONNREFUSED\<close>; \<^verbatim>\<open>initializeFromConfig\<close> fails, as it must, but the aggregate
  error gives \<^verbatim>\<open>[object Object]\<close> as the cause, and \<open>connectionErrors\<close> stays empty.
\<close>

theorem strict_failure_loses_cause:
  "map fst (failedStrict unreachableWorld newManager protoStrict) = [''__proto__'']
   \<and> connect unreachableWorld \<lparr>connectionMode = Some strict\<rparr> ''__proto__'' = Some (Error ''ECONNREFUSED'')
   \<and> failureLine unreachableWorld (''__proto__'', \<lparr>connectionMode = Some strict\<rparr>) = ''__proto__: ECONNREFUSED''
   \<and> initializeFromConfig unreachableWorld [''__proto__''] protoStrict newManager =
       Some (Inl (Error ''Failed to connect to required strict servers: __proto__: [object Object]''),
         \<lparr>clients = [],
          connectionErrors = [],
          toolToClientMap = [],
          promptToClientMap = [],
          resourceToClientMap = [],
          allocated = 1\<rparr>)"
  by (simp add: failedStrict_def failsToConnect_def failureLine_def protoStrict_def
      unreachableWorld_def exampleWorld_def init_defs manager_defs)

lemma modesOmitted_run:
  "initializeFromConfig exampleWorld interleaved modesOmitted newManager =
     Some (Inr (),
       \<lparr>clients = [(''docs'', MCPClient 0 ''docs'')],
        connectionErrors = [(''wiki'', ''timed out''), (''fs'', ''ENOENT'')],
        toolToClientMap = [(''search'', MCPClient 0 ''docs'')],
        promptToClientMap = [(''summarize'', MCPClient 0 ''docs'')],
        resourceToClientMap = [],
        allocated = 3\<rparr>)"
  by (simp add: modesOmitted_def interleaved_def exampleWorld_def init_defs manager_defs)

text \<open>
  A configuration without \<^verbatim>\<open>connectionMode\<close> is in lenient mode. When every server
  that fails to connect omits \<^verbatim>\<open>connectionMode\<close>, \<^verbatim>\<open>initializeFromConfig\<close> returns
  success, with the failure of every server not named \<^verbatim>\<open>__proto__\<close> recorded in
  \<open>connectionErrors\<close>; and it does return once every server has settled four times.
\<close>

theorem initializeFromConfig_mode_absent:
  assumes "distinct (map fst serverConfigs)"
    and "\<forall>sc \<in> set serverConfigs. failsToConnect w m sc \<longrightarrow> connectionMode (snd sc) = None"
  shows "(\<forall>config. connectionMode config = None \<longrightarrow> effectiveMode config = lenient)
       \<and> (\<forall>r m'. initializeFromConfig w schedule serverConfigs m = Some (r, m') \<longrightarrow>
            r = Inr ()
          \<and> (\<forall>sc \<in> set serverConfigs. \<forall>e.
                fst sc \<noteq> ''__proto__'' \<and> fst sc \<notin> fst ` set (clients m)
                  \<and> connect w (snd sc) (fst sc) = Some e \<longrightarrow>
                map_of (connectionErrors m') (fst sc) = Some (errorMessage e)))
       \<and> ((\<forall>name \<in> set (map fst serverConfigs). 4 \<le> count_list schedule name) \<longrightarrow>
            initializeFromConfig w schedule serverConfigs m \<noteq> None)"
proof (intro conjI allI impI)
  fix config :: McpServerConfig assume "connectionMode config = None"
  then show "effectiveMode config = lenient" by (simp add: effectiveMode_def)
next
  fix r m' assume some: "initializeFromConfig w schedule serverConfigs m = Some (r, m')"
  have none: "failedStrict w m serverConfigs = []"
    using assms(2) by (auto simp: failedStrict_def filter_empty_conv effectiveMode_def)
  show "r = Inr ()"
  proof (cases "serverConfigs = []")
    case True
    with some show ?thesis by (simp add: initializeFromConfig_def)
  next
    case False
    from initializeFromConfig_Some(3) [OF assms(1) False some] none show ?thesis by simp
  qed
  show "\<forall>sc \<in> set serverConfigs. \<forall>e.
          fst sc \<noteq> ''__proto__'' \<and> fst sc \<notin> fst ` set (clients m)
            \<and> connect w (snd sc) (fst sc) = Some e \<longrightarrow>
          map_of (connectionErrors m') (fst sc) = Some (errorMessage e)"
    using recorded_failures [OF assms(1) some] by blast
next
  assume "\<forall>name \<in> set (map fst serverConfigs). 4 \<le> count_list schedule name"
  with assms(1) show "initializeFromConfig w schedule serverConfigs m \<noteq> None"
    by (rule initializeFromConfig_returns)
qed

theorem initializeFromConfig_mode_absent_witness:
  "distinct (map fst modesOmitted)
   \<and> list_all (\<lambda>sc. connectionMode (snd sc) = None) modesOmitted
   \<and> map fst (filter (failsToConnect exampleWorld newManager) modesOmitted) = [''wiki'', ''fs'']
   \<and> list_all (\<lambda>name. 4 \<le> count_list interleaved name) (map fst modesOmitted)
   \<and> initializeFromConfig exampleWorld interleaved modesOmitted newManager =
       Some (Inr (),
         \<lparr>clients = [(''docs'', MCPClient 0 ''docs'')],
          connectionErrors = [(''wiki'', ''timed out''), (''fs'', ''ENOENT'')],
          toolToClientMap = [(''search'', MCPClient 0 ''docs'')],
          promptToClientMap = [(''summarize'', MCPClient 0 ''docs'')],
          resourceToClientMap = [],
          allocated = 3\<rparr>)"
proof -
  have d: "distinct (map fst modesOmitted)" by (simp add: modesOmitted_def)
  have a: "\<forall>sc \<in> set modesOmitted. failsToConnect exampleWorld newManager sc \<longrightarrow> connectionMode (snd sc) = None"
    by (simp add: modesOmitted_def)
  note inst = initializeFromConfig_mode_absent [OF d a, of interleaved]
  have "list_all (\<lambda>sc. connectionMode (snd sc) = None) modesOmitted"
    by (simp add: modesOmitted_def)
  moreover have "map fst (filter (failsToConnect exampleWorld newManager) modesOmitted) = [''wiki'', ''fs'']"
    by (simp add: failsToConnect_def modesOmitted_def exampleWorld_def newManager_def)
  moreover have "list_all (\<lambda>name. 4 \<le> count_list interleaved name) (map fst modesOmitted)"
    by (simp add: modesOmitted_def interleaved_def)
  ultimately show ?thesis using d inst modesOmitted_run by simp
qed

text \<open>
  C9. The failure of a server without \<^verbatim>\<open>connectionMode\<close> is not recorded when the
  server is named \<^verbatim>\<open>__proto__\<close>. The server is lenient and its connection is refused
  with \<^verbatim>\<open>ECONNREFUSED\<close>; \<^verbatim>\<open>initializeFromConfig\<close> succeeds, as it must, but
  \<open>connectionErrors\<close> stays empty: the assignment
  \<^verbatim>\<open>this.connectionErrors[name] = errorMsg\<close> to the plain object has no effect for
  that name.
\<close>

theorem lenient_failure_not_recorded:
  "effectiveMode \<lparr>connectionMode = None\<rparr> = lenient
   \<and> map fst (filter (failsToConnect unreachableWorld newManager) protoOmitted) = [''__proto__'']
   \<and> connect unreachableWorld \<lparr>connectionMode = None\<rparr> ''__proto__'' = Some (Error ''ECONNREFUSED'')
   \<and> initializeFromConfig unreachableWorld [''__proto__''] protoOmitted newManager =
       Some (Inr (),
         \<lparr>clients = [],
          connectionErrors = [],
          toolToClientMap = [],
          promptToClientMap = [],
          resourceToClientMap = [],
          allocated = 1\<rparr>)
   \<and> getProperty [] ''__proto__'' = PrototypeObject"
  by (simp add: failsToConnect_def protoOmitted_def
      unreachableWorld_def exampleWorld_def init_defs manager_defs)

text \<open>
  The scenario of C4: \<open>fs\<close> is strict and fails, \<open>docs\<close> is lenient and connects.
  \<^verbatim>\<open>initializeFromConfig\<close> throws the aggregate error, and \<open>docs\<close> is registered with
  its tool and its prompt in the caches: nothing is discarded.
\<close>

theorem strict_abort_keeps_lenient_tools:
  "initializeFromConfig exampleWorld [''fs'', ''docs'', ''docs'', ''docs'', ''docs''] fsAndDocs newManager =
     Some (Inl (Error ''Failed to connect to required strict servers: fs: ENOENT''),
       \<lparr>clients = [(''docs'', MCPClient 1 ''docs'')],
        connectionErrors = [(''fs'', ''ENOENT'')],
        toolToClientMap = [(''search'', MCPClient 1 ''docs'')],
        promptToClientMap = [(''summarize'', MCPClient 1 ''docs'')],
        resourceToClientMap = [],
        allocated = 2\<rparr>)"
  by (simp add: fsAndDocs_def exampleWorld_def init_defs manager_defs)

text \<open>
  C4, amended. A \<^verbatim>\<open>connectServer(name, config)\<close> that fails records the message of the
  rejection under \<open>name\<close>, for every name other than \<^verbatim>\<open>__proto__\<close>, leaves \<open>name\<close>
  unregistered, whatever the name, and leaves \<open>clients\<close> and the three caches as they
  were. When \<^verbatim>\<open>initializeFromConfig\<close> ends in the aggregate error,
  every server of the call whose connection succeeded is registered, and every tool it
  lists is a key of the tool cache: the call rolls nothing back.
\<close>

theorem connection_failure_state:
  "(\<forall>err. fst (connectServer w name config m) = Inl err \<longrightarrow>
       (\<exists>e. connect w config name = Some e \<and> err = connectError name e
           \<and> (name \<noteq> ''__proto__'' \<longrightarrow>
                map_of (connectionErrors (snd (connectServer w name config m))) name = Some (errorMessage e)))
     \<and> name \<notin> fst ` set (clients (snd (connectServer w name config m)))
     \<and> clients (snd (connectServer w name config m)) = clients m
     \<and> toolToClientMap (snd (connectServer w name config m)) = toolToClientMap m
     \<and> promptToClientMap (snd (connectServer w name config m)) = promptToClientMap m
     \<and> resourceToClientMap (snd (connectServer w name config m)) = resourceToClientMap m)
   \<and> (distinct (map fst serverConfigs) \<longrightarrow>
        (\<forall>err m'. initializeFromConfig w schedule serverConfigs m = Some (Inl err, m') \<longrightarrow>
           (\<forall>sc \<in> set serverConfigs.
              fst sc \<notin> fst ` set (clients m) \<and> connect w (snd sc) (fst sc) = None \<longrightarrow>
              (\<exists>client. map_of (clients m') (fst sc) = Some client \<and> serverName client = fst sc
                 \<and> (\<forall>tools. getTools w client = Inr tools \<longrightarrow>
                       set (map fst tools) \<subseteq> fst ` set (toolToClientMap m'))))))"
proof (intro conjI allI impI ballI)
  fix err assume f: "fst (connectServer w name config m) = Inl err"
  then have notin: "name \<notin> fst ` set (clients m)"
    by (auto simp: connectServer_def split: if_splits)
  from f notin obtain e where e: "connect w config name = Some e"
    by (cases "connect w config name") (auto simp: connectServer_def Let_def)
  have m': "snd (connectServer w name config m)
      = connectFailed name e (m\<lparr>allocated := Suc (allocated m)\<rparr>)"
    using notin e by (simp add: connectServer_def Let_def)
  have err: "err = connectError name e"
    using f notin e by (simp add: connectServer_def Let_def)
  show "\<exists>e. connect w config name = Some e \<and> err = connectError name e
           \<and> (name \<noteq> ''__proto__'' \<longrightarrow>
                map_of (connectionErrors (snd (connectServer w name config m))) name = Some (errorMessage e))"
    using e err by (simp add: m' connectFailed_def map_of_setProperty_same)
  show "clients (snd (connectServer w name config m)) = clients m"
    using notin by (simp add: m' connectFailed_def)
  then show "name \<notin> fst ` set (clients (snd (connectServer w name config m)))"
    using notin by simp
  show "toolToClientMap (snd (connectServer w name config m)) = toolToClientMap m"
    by (simp add: m' connectFailed_def)
  show "promptToClientMap (snd (connectServer w name config m)) = promptToClientMap m"
    by (simp add: m' connectFailed_def)
  show "resourceToClientMap (snd (connectServer w name config m)) = resourceToClientMap m"
    by (simp add: m' connectFailed_def)
next
  fix err m' sc
  assume d: "distinct (map fst serverConfigs)"
    and some: "initializeFromConfig w schedule serverConfigs m = Some (Inl err, m')"
    and sc: "sc \<in> set serverConfigs"
    and ok: "fst sc \<notin> fst ` set (clients m) \<and> connect w (snd sc) (fst sc) = None"
  from sc have ne: "serverConfigs \<noteq> []" by auto
  note res = initializeFromConfig_Some [OF d ne some]
  from sc have "(fst sc, snd sc) \<in> set serverConfigs" by simp
  from run_settled_server [OF d res(1) this] ok
  obtain cl where cl: "map_of (clients m') (fst sc) = Some cl" "serverName cl = fst sc"
      "toolsCached w m' cl"
    by (auto simp: res(2))
  from cl(3) have "\<forall>tools. getTools w cl = Inr tools \<longrightarrow> set (map fst tools) \<subseteq> fst ` set (toolToClientMap m')"
    by (simp only: toolsCached_iff)
  with cl(1,2)
  show "\<exists>client. map_of (clients m') (fst sc) = Some client \<and> serverName client = fst sc
           \<and> (\<forall>tools. getTools w client = Inr tools \<longrightarrow>
                 set (map fst tools) \<subseteq> fst ` set (toolToClientMap m'))"
    by blast
qed

theorem connection_failure_state_witness:
  "connectServer exampleWorld ''fs'' \<lparr>connectionMode = Some strict\<rparr> filesManager =
     (Inl (Error (''Failed to connect to new server '' @ [CHR 39] @ ''fs'' @ [CHR 39] @ '': ENOENT'')),
      filesManager\<lparr>connectionErrors := [(''fs'', ''ENOENT'')], allocated := 2\<rparr>)
   \<and> distinct (map fst fsAndDocs)
   \<and> connect exampleWorld \<lparr>connectionMode = Some lenient\<rparr> ''docs'' = None
   \<and> getTools exampleWorld (MCPClient 1 ''docs'') = Inr [(''search'', Tool (Some ''Search the docs'') JNull)]
   \<and> (\<exists>err m'. initializeFromConfig exampleWorld [''fs'', ''docs'', ''docs'', ''docs'', ''docs''] fsAndDocs newManager
          = Some (Inl err, m')
        \<and> map_of (clients m') ''docs'' = Some (MCPClient 1 ''docs'')
        \<and> map_of (toolToClientMap m') ''search'' = Some (MCPClient 1 ''docs''))"
proof -
  have run: "initializeFromConfig exampleWorld [''fs'', ''docs'', ''docs'', ''docs'', ''docs''] fsAndDocs newManager =
     Some (Inl (Error ''Failed to connect to required strict servers: fs: ENOENT''),
       \<lparr>clients = [(''docs'', MCPClient 1 ''docs'')],
        connectionErrors = [(''fs'', ''ENOENT'')],
        toolToClientMap = [(''search'', MCPClient 1 ''docs'')],
        promptToClientMap = [(''summarize'', MCPClient 1 ''docs'')],
        resourceToClientMap = [],
        allocated = 2\<rparr>)"
    by (simp add: fsAndDocs_def exampleWorld_def init_defs manager_defs)
  have single: "connectServer exampleWorld ''fs'' \<lparr>connectionMode = Some strict\<rparr> filesManager =
     (Inl (Error (''Failed to connect to new server '' @ [CHR 39] @ ''fs'' @ [CHR 39] @ '': ENOENT'')),
      filesManager\<lparr>connectionErrors := [(''fs'', ''ENOENT'')], allocated := 2\<rparr>)"
    by (simp add: filesManager_eq exampleWorld_def connectServer_def connectFailed_def setProperty_def
        connectError_def Let_def)
  note single_inst = connection_failure_state
      [of exampleWorld "''fs''" "\<lparr>connectionMode = Some strict\<rparr>" filesManager]
  note init_inst = connection_failure_state
      [of exampleWorld _ _ newManager fsAndDocs "[''fs'', ''docs'', ''docs'', ''docs'', ''docs'']"]
  show ?thesis
    using single_inst init_inst single run
    by (simp add: fsAndDocs_def exampleWorld_def)
qed

section \<open>Properties of the LLM services\<close>

lemma handleToolUses_results:
  "\<exists>results. messages (handleToolUses env toolUses s) = messages s @ results
      \<and> map resultKey results = map (\<lambda>u. Some (useId u, useName u)) toolUses"
proof (induction toolUses arbitrary: s)
  case Nil
  then show ?case by simp
next
  case (Cons u toolUses)
  obtain i n a where u: "u = ToolUse i n a" by (cases u)
  define p where "p = (case managerExecuteTool env (messages s) n a of
      Inr result \<Rightarrow> result | Inl error \<Rightarrow> JObj [(''error'', JStr (errorMessage error))])"
  define s1 where "s1 = emit (ToolResultEvent n p) (addToolResult i n p (emit (ToolCallEvent n a) s))"
  have step: "handleToolUses env (u # toolUses) s = handleToolUses env toolUses s1"
    by (simp add: u s1_def p_def emit_def addToolResult_def Let_def split: sum.splits)
  have m1: "messages s1 = messages s @ [ToolResultMessage i n p]"
    by (simp add: s1_def emit_def addToolResult_def)
  from Cons.IH [of s1] obtain results where
    r: "messages (handleToolUses env toolUses s1) = messages s1 @ results"
       "map resultKey results = map (\<lambda>u. Some (useId u, useName u)) toolUses"
    by blast
  have "messages (handleToolUses env (u # toolUses) s) = messages s @ (ToolResultMessage i n p # results)"
    by (simp add: step r(1) m1)
  moreover have "map resultKey (ToolResultMessage i n p # results)
      = map (\<lambda>u. Some (useId u, useName u)) (u # toolUses)"
    by (simp add: r(2) u)
  ultimately show ?case by blast
qed

lemma handleToolUses_failed:
  assumes "managerExecuteTool env (messages s) name input = Inl e"
  shows "\<exists>s1. messages s1 = messages s @ [ToolResultMessage i name (JObj [(''error'', JStr (errorMessage e))])]
            \<and> handleToolUses env (ToolUse i name input # toolUses) s = handleToolUses env toolUses s1"
  using assms by (auto simp: emit_def addToolResult_def Let_def intro!: exI)

lemma handleToolUses_assistant:
  "filter isAssistant (messages (handleToolUses env toolUses s)) = filter isAssistant (messages s)"
proof -
  from handleToolUses_results [of env toolUses s] obtain results where
    r: "messages (handleToolUses env toolUses s) = messages s @ results"
       "map resultKey results = map (\<lambda>u. Some (useId u, useName u)) toolUses"
    by blast
  have "\<forall>m \<in> set results. \<not> isAssistant m"
  proof
    fix m assume "m \<in> set results"
    then have "resultKey m \<in> set (map resultKey results)" by simp
    then have "resultKey m \<noteq> None" unfolding r(2) by auto
    then show "\<not> isAssistant m" by (cases m) simp_all
  qed
  then have "filter isAssistant results = []" by (simp add: filter_empty_conv)
  then show ?thesis by (simp add: r(1))
qed

lemma whileLoop_limit:
  "\<not> i < MAX_ITERATIONS \<Longrightarrow>
     whileLoop env i full s =
       (if full \<noteq> [] then full
        else ''Reached maximum number of tool call iterations without a final response.'',
        i, emit (ResponseEvent full) s)"
  by (subst whileLoop.simps) simp

lemma whileLoop_error:
  "i < MAX_ITERATIONS \<Longrightarrow> messagesCreate env (messages s) = Inl e \<Longrightarrow>
     whileLoop env i full s =
       (''Error processing request: '' @ errorMessage e, Suc i, emit (ErrorEvent (asError e)) s)"
  by (subst whileLoop.simps) simp

lemma whileLoop_final:
  "i < MAX_ITERATIONS \<Longrightarrow> messagesCreate env (messages s) = Inr content \<Longrightarrow>
   toolUsesOf content = [] \<Longrightarrow>
     whileLoop env i full s =
       (full @ textOf content, Suc i,
        emit (ResponseEvent (full @ textOf content)) (addAssistantMessage (textOf content) None s))"
  by (subst whileLoop.simps) (simp add: Let_def)

lemma whileLoop_continue:
  "i < MAX_ITERATIONS \<Longrightarrow> messagesCreate env (messages s) = Inr content \<Longrightarrow>
   toolUsesOf content \<noteq> [] \<Longrightarrow>
     whileLoop env i full s =
       whileLoop env (Suc i)
         (if textOf content \<noteq> [] then full @ textOf content @ [CHR 0x0A] else full)
         (emit Thinking (handleToolUses env (toolUsesOf content)
            (addAssistantMessage (textOf content) (Some (map formatToolCall (toolUsesOf content))) s)))"
  by (subst whileLoop.simps) (simp add: Let_def)

declare whileLoop.simps [simp del]

lemma whileLoop_bound:
  "i \<le> MAX_ITERATIONS \<Longrightarrow>
     i \<le> fst (snd (whileLoop env i full s)) \<and> fst (snd (whileLoop env i full s)) \<le> MAX_ITERATIONS
     \<and> length (filter isAssistant (messages (snd (snd (whileLoop env i full s)))))
         \<le> length (filter isAssistant (messages s)) + (fst (snd (whileLoop env i full s)) - i)"
proof (induction env i full s rule: whileLoop.induct)
  case (1 env i full s)
  show ?case
  proof (cases "i < MAX_ITERATIONS")
    case False
    then show ?thesis using "1.prems" by (simp add: whileLoop_limit emit_def)
  next
    case True
    show ?thesis
    proof (cases "messagesCreate env (messages s)")
      case (Inl e)
      with True show ?thesis by (simp add: whileLoop_error emit_def)
    next
      case (Inr content)
      show ?thesis
      proof (cases "toolUsesOf content = []")
        case True
        with \<open>i < MAX_ITERATIONS\<close> Inr show ?thesis
          by (simp add: whileLoop_final emit_def addAssistantMessage_def)
      next
        case False
        define s1 where "s1 = addAssistantMessage (textOf content) (Some (map formatToolCall (toolUsesOf content))) s"
        define full' where "full' = (if textOf content \<noteq> [] then full @ textOf content @ [CHR 0x0A] else full)"
        define s2 where "s2 = emit Thinking (handleToolUses env (toolUsesOf content) s1)"
        have unfold: "whileLoop env i full s = whileLoop env (Suc i) full' s2"
          using \<open>i < MAX_ITERATIONS\<close> Inr False
          by (simp add: whileLoop_continue s1_def s2_def full'_def)
        have IH: "Suc i \<le> fst (snd (whileLoop env (Suc i) full' s2))
            \<and> fst (snd (whileLoop env (Suc i) full' s2)) \<le> MAX_ITERATIONS
            \<and> length (filter isAssistant (messages (snd (snd (whileLoop env (Suc i) full' s2)))))
                \<le> length (filter isAssistant (messages s2)) + (fst (snd (whileLoop env (Suc i) full' s2)) - Suc i)"
          using "1.IH" [OF \<open>i < MAX_ITERATIONS\<close> Inr refl refl refl False] \<open>i < MAX_ITERATIONS\<close> False
          by (simp add: s1_def s2_def full'_def split del: if_split) arith
        have "length (filter isAssistant (messages s2)) = Suc (length (filter isAssistant (messages s)))"
          by (simp add: s2_def emit_def handleToolUses_assistant s1_def addAssistantMessage_def)
        with IH show ?thesis unfolding unfold by arith
      qed
    qed
  qed
qed

lemma formatTools_fold:
  "map_of (fold (\<lambda>name acc. case map_of tools name of None \<Rightarrow> acc
                   | Some tool \<Rightarrow> AList.update name (mk name tool) acc) ks acc) name
     = (if name \<in> set ks \<and> map_of tools name \<noteq> None then Some (mk name (the (map_of tools name)))
        else map_of acc name)"
  by (induction ks arbitrary: acc) (auto simp: update_conv' split: option.splits)

lemma formatTools_execute:
  assumes "map_of tools name = Some tool"
  shows "\<exists>vt. map_of (formatTools tm session tools) name = Some vt
             \<and> toolExecute vt = execute tm session name"
proof -
  from assms have "(name, tool) \<in> set tools" by (rule map_of_SomeD)
  then have "name \<in> set (map fst tools)" by force
  with assms show ?thesis
    unfolding formatTools_def
    by (subst formatTools_fold
          [where mk = "\<lambda>name tool. \<lparr>toolParameters = parameters tool,
                   toolExecute = execute tm session name,
                   toolDescription = (case description tool of None \<Rightarrow> None | Some d \<Rightarrow> if d = [] then None else Some d)\<rparr>"])
       simp
qed

lemma whileLoop_continue_results:
  assumes "k < MAX_ITERATIONS" "messagesCreate env (messages s) = Inr content" "toolUsesOf content \<noteq> []"
  shows "\<exists>full' s' results. whileLoop env k full s = whileLoop env (Suc k) full' s'
           \<and> messages s' = messages s
                @ [AssistantMessage (textOf content) (Some (map formatToolCall (toolUsesOf content)))]
                @ results
           \<and> map resultKey results = map (\<lambda>u. Some (useId u, useName u)) (toolUsesOf content)"
proof -
  define s1 where "s1 = addAssistantMessage (textOf content) (Some (map formatToolCall (toolUsesOf content))) s"
  from handleToolUses_results [of env "toolUsesOf content" s1] obtain results where
    r: "messages (handleToolUses env (toolUsesOf content) s1) = messages s1 @ results"
       "map resultKey results = map (\<lambda>u. Some (useId u, useName u)) (toolUsesOf content)"
    by blast
  have "messages (emit Thinking (handleToolUses env (toolUsesOf content) s1))
      = messages s @ [AssistantMessage (textOf content) (Some (map formatToolCall (toolUsesOf content)))] @ results"
    using r(1) by (simp add: emit_def s1_def addAssistantMessage_def)
  with whileLoop_continue [OF assms, of full] r(2) show ?thesis
    unfolding s1_def by blast
qed

text \<open>
  C5. Whatever \<^verbatim>\<open>executeTool\<close> does (a result, a denial, a failure, a timeout), the
  Anthropic loop appends exactly one tool-result message per tool use, in order; an
  execution that throws appends the payload \<^verbatim>\<open>{ error: message }\<close> and the loop goes on
  with the next tool use; an iteration whose response has tool uses always goes on to
  the next provider call with these results in the log; and no error of a tool leaves
  \<^verbatim>\<open>completeTask\<close>, whose only rejection is that of \<^verbatim>\<open>getAllTools\<close>. The \<^verbatim>\<open>execute\<close>
  function of the Vercel service, which \<^verbatim>\<open>formatTools\<close> gives every tool, returns a payload
  for every error: \<^verbatim>\<open>{ error, denied: true }\<close> for a denial,
  \<^verbatim>\<open>{ error, denied: true, timeout: true }\<close> for a confirmation timeout and
  \<^verbatim>\<open>{ error }\<close> for anything else.
\<close>

theorem tool_failures_become_results:
  "(\<exists>results. messages (handleToolUses env toolUses s) = messages s @ results
        \<and> map resultKey results = map (\<lambda>u. Some (useId u, useName u)) toolUses)
   \<and> (\<forall>e. managerExecuteTool env (messages s) name input = Inl e \<longrightarrow>
         (\<exists>s1. messages s1 = messages s @ [ToolResultMessage i name (JObj [(''error'', JStr (errorMessage e))])]
              \<and> handleToolUses env (ToolUse i name input # toolUses) s = handleToolUses env toolUses s1))
   \<and> (\<forall>content. k < MAX_ITERATIONS \<and> messagesCreate env (messages s) = Inr content
          \<and> toolUsesOf content \<noteq> [] \<longrightarrow>
         (\<exists>full' s' results. whileLoop env k full s = whileLoop env (Suc k) full' s'
            \<and> messages s' = messages s
                 @ [AssistantMessage (textOf content) (Some (map formatToolCall (toolUsesOf content)))]
                 @ results
            \<and> map resultKey results = map (\<lambda>u. Some (useId u, useName u)) (toolUsesOf content)))
   \<and> (\<forall>tools. managerGetAllTools env = Inr tools \<longrightarrow>
         (\<exists>outcome. completeTask env userInput imageData s = Inr outcome))
   \<and> (\<forall>code msg. tm name input session = Inl (DextoRuntimeError code msg) \<longrightarrow>
         execute tm session name input =
           (if code = EXECUTION_DENIED then JObj [(''error'', JStr msg), (''denied'', JBool True)]
            else if code = CONFIRMATION_TIMEOUT then
              JObj [(''error'', JStr msg), (''denied'', JBool True), (''timeout'', JBool True)]
            else JObj [(''error'', JStr msg)]))
   \<and> (\<forall>msg. tm name input session = Inl (Error msg) \<longrightarrow>
         execute tm session name input = JObj [(''error'', JStr msg)])
   \<and> (\<forall>v. tm name input session = Inl (NonError v) \<longrightarrow>
         execute tm session name input = JObj [(''error'', JStr v)])
   \<and> (\<forall>tool. map_of tools name = Some tool \<longrightarrow>
         (\<exists>vt. map_of (formatTools tm session tools) name = Some vt
              \<and> toolExecute vt = execute tm session name))"
proof (intro conjI allI impI)
  show "\<exists>results. messages (handleToolUses env toolUses s) = messages s @ results
        \<and> map resultKey results = map (\<lambda>u. Some (useId u, useName u)) toolUses"
    by (rule handleToolUses_results)
next
  fix e assume "managerExecuteTool env (messages s) name input = Inl e"
  then show "\<exists>s1. messages s1 = messages s @ [ToolResultMessage i name (JObj [(''error'', JStr (errorMessage e))])]
              \<and> handleToolUses env (ToolUse i name input # toolUses) s = handleToolUses env toolUses s1"
    by (rule handleToolUses_failed)
next
  fix content
  assume "k < MAX_ITERATIONS \<and> messagesCreate env (messages s) = Inr content \<and> toolUsesOf content \<noteq> []"
  then show "\<exists>full' s' results. whileLoop env k full s = whileLoop env (Suc k) full' s'
            \<and> messages s' = messages s
                 @ [AssistantMessage (textOf content) (Some (map formatToolCall (toolUsesOf content)))]
                 @ results
            \<and> map resultKey results = map (\<lambda>u. Some (useId u, useName u)) (toolUsesOf content)"
    using whileLoop_continue_results by blast
next
  fix tools assume "managerGetAllTools env = Inr tools"
  then show "\<exists>outcome. completeTask env userInput imageData s = Inr outcome"
    by (simp add: completeTask_def del: split_paired_Ex)
next
  fix code msg assume "tm name input session = Inl (DextoRuntimeError code msg)"
  then show "execute tm session name input =
           (if code = EXECUTION_DENIED then JObj [(''error'', JStr msg), (''denied'', JBool True)]
            else if code = CONFIRMATION_TIMEOUT then
              JObj [(''error'', JStr msg), (''denied'', JBool True), (''timeout'', JBool True)]
            else JObj [(''error'', JStr msg)])"
    by (simp add: execute_def)
next
  fix msg assume "tm name input session = Inl (Error msg)"
  then show "execute tm session name input = JObj [(''error'', JStr msg)]"
    by (simp add: execute_def)
next
  fix v assume "tm name input session = Inl (NonError v)"
  then show "execute tm session name input = JObj [(''error'', JStr v)]"
    by (simp add: execute_def)
next
  fix tool assume "map_of tools name = Some tool"
  then show "\<exists>vt. map_of (formatTools tm session tools) name = Some vt
              \<and> toolExecute vt = execute tm session name"
    by (rule formatTools_execute)
qed

lemmas service_defs = completeTask_def addUserMessage_def addAssistantMessage_def addToolResult_def
  emit_def formatToolCall_def MAX_ITERATIONS_def Let_def

lemma scripted_run:
  "completeTask scriptedEnv ''Delete /tmp/x'' None newService =
     Inr (''Let me check.'' @ [CHR 0x0A] @ ''The file was not deleted.'', 2,
       \<lparr>messages =
          [UserMessage ''Delete /tmp/x'' None,
           AssistantMessage ''Let me check.''
             (Some [FunctionCall ''call_1'' ''delete_file'' (JObj [(''path'', JStr ''/tmp/x'')])]),
           ToolResultMessage ''call_1'' ''delete_file'' (JObj [(''error'', JStr ''Tool execution denied'')]),
           AssistantMessage ''The file was not deleted.'' None],
        emitted =
          [Thinking,
           ToolCallEvent ''delete_file'' (JObj [(''path'', JStr ''/tmp/x'')]),
           ToolResultEvent ''delete_file'' (JObj [(''error'', JStr ''Tool execution denied'')]),
           Thinking,
           ResponseEvent (''Let me check.'' @ [CHR 0x0A] @ ''The file was not deleted.'')]\<rparr>)"
  by (simp add: scriptedEnv_def newService_def service_defs whileLoop.simps)

theorem tool_failures_become_results_witness:
  "managerGetAllTools scriptedEnv = Inr [(''delete_file'', Tool None JNull)]
   \<and> managerExecuteTool scriptedEnv (messages newService) ''delete_file'' JNull
        = Inl (Error ''Tool execution denied'')
   \<and> (\<exists>n s'. completeTask scriptedEnv ''Delete /tmp/x'' None newService =
          Inr (''Let me check.'' @ [CHR 0x0A] @ ''The file was not deleted.'', n, s')
        \<and> messages s' =
            [UserMessage ''Delete /tmp/x'' None,
             AssistantMessage ''Let me check.''
               (Some [FunctionCall ''call_1'' ''delete_file'' (JObj [(''path'', JStr ''/tmp/x'')])]),
             ToolResultMessage ''call_1'' ''delete_file'' (JObj [(''error'', JStr ''Tool execution denied'')]),
             AssistantMessage ''The file was not deleted.'' None])
   \<and> denyingToolManager ''delete_file'' JNull ''session-1''
        = Inl (DextoRuntimeError EXECUTION_DENIED ''Tool execution denied by user'')
   \<and> execute denyingToolManager ''session-1'' ''delete_file'' JNull
        = JObj [(''error'', JStr ''Tool execution denied by user''), (''denied'', JBool True)]"
  using tool_failures_become_results
    [where env = scriptedEnv and toolUses = "[]" and s = newService and name = "''delete_file''"
       and input = JNull and tm = denyingToolManager and session = "''session-1''"
       and userInput = "''Delete /tmp/x''" and imageData = None]
    scripted_run
  by (simp add: scriptedEnv_def denyingToolManager_def execute_def)

lemma looping_step:
  "whileLoop loopingEnv i full s =
     (if i < 10 then
        whileLoop loopingEnv (Suc i) full
          (s\<lparr>messages := messages s @
                [AssistantMessage [] (Some [FunctionCall ''call'' ''search'' JNull]),
                 ToolResultMessage ''call'' ''search'' (JStr ''nothing found'')],
             emitted := emitted s @
                [ToolCallEvent ''search'' JNull, ToolResultEvent ''search'' (JStr ''nothing found''), Thinking]\<rparr>)
      else (if full \<noteq> [] then full
            else ''Reached maximum number of tool call iterations without a final response.'',
            i, s\<lparr>emitted := emitted s @ [ResponseEvent full]\<rparr>))"
  by (subst whileLoop.simps) (simp add: loopingEnv_def service_defs)

lemma looping_run:
  "\<exists>s'. completeTask loopingEnv ''Find it'' None newService =
     Inr (''Reached maximum number of tool call iterations without a final response.'', 10, s')
   \<and> length (filter isAssistant (messages s')) = 10"
  by (simp add: completeTask_def loopingEnv_def [THEN arg_cong, of managerGetAllTools] looping_step
      newService_def addUserMessage_def emit_def)

text \<open>
  C8. The step limit is 10. \<^verbatim>\<open>completeTask\<close> returns, with a final \<^verbatim>\<open>iterationCount\<close> of
  at most \<^verbatim>\<open>MAX_ITERATIONS\<close> and at most that many assistant messages added; the loop
  never counts past the limit; a response without tool uses makes the loop return in that
  very iteration; and at the limit the loop returns the text gathered so far, or the
  fixed notice when there is none.
\<close>

theorem completeTask_iteration_limit:
  "MAX_ITERATIONS = 10
   \<and> (\<forall>tools. managerGetAllTools env = Inr tools \<longrightarrow>
         (\<exists>response n s'. completeTask env userInput imageData s = Inr (response, n, s')
            \<and> n \<le> MAX_ITERATIONS
            \<and> length (filter isAssistant (messages s')) \<le> length (filter isAssistant (messages s)) + n))
   \<and> (i \<le> MAX_ITERATIONS \<longrightarrow>
         i \<le> fst (snd (whileLoop env i full st)) \<and> fst (snd (whileLoop env i full st)) \<le> MAX_ITERATIONS)
   \<and> (\<forall>content. i < MAX_ITERATIONS \<and> messagesCreate env (messages st) = Inr content
          \<and> toolUsesOf content = [] \<longrightarrow>
         whileLoop env i full st =
           (full @ textOf content, Suc i,
            emit (ResponseEvent (full @ textOf content)) (addAssistantMessage (textOf content) None st)))
   \<and> whileLoop env MAX_ITERATIONS full st =
        (if full \<noteq> [] then full
         else ''Reached maximum number of tool call iterations without a final response.'',
         MAX_ITERATIONS, emit (ResponseEvent full) st)"
proof (intro conjI allI impI)
  show "MAX_ITERATIONS = 10" by (simp add: MAX_ITERATIONS_def)
next
  fix tools assume tools: "managerGetAllTools env = Inr tools"
  define s0 where "s0 = emit Thinking (addUserMessage userInput imageData s)"
  obtain response n s' where run: "whileLoop env 0 [] s0 = (response, n, s')"
    by (cases "whileLoop env 0 [] s0") auto
  from whileLoop_bound [of 0 env "[]" s0] run
  have "n \<le> MAX_ITERATIONS"
    and "length (filter isAssistant (messages s')) \<le> length (filter isAssistant (messages s0)) + n"
    by simp_all
  moreover have "filter isAssistant (messages s0) = filter isAssistant (messages s)"
    by (simp add: s0_def emit_def addUserMessage_def)
  moreover have "completeTask env userInput imageData s = Inr (response, n, s')"
    using tools run by (simp add: completeTask_def s0_def)
  ultimately show "\<exists>response n s'. completeTask env userInput imageData s = Inr (response, n, s')
            \<and> n \<le> MAX_ITERATIONS
            \<and> length (filter isAssistant (messages s')) \<le> length (filter isAssistant (messages s)) + n"
    by auto
next
  assume "i \<le> MAX_ITERATIONS"
  from whileLoop_bound [OF this, of env full st]
  show "i \<le> fst (snd (whileLoop env i full st))"
    and "fst (snd (whileLoop env i full st)) \<le> MAX_ITERATIONS"
    by simp_all
next
  fix content
  assume "i < MAX_ITERATIONS \<and> messagesCreate env (messages st) = Inr content \<and> toolUsesOf content = []"
  then show "whileLoop env i full st =
           (full @ textOf content, Suc i,
            emit (ResponseEvent (full @ textOf content)) (addAssistantMessage (textOf content) None st))"
    by (simp add: whileLoop_final)
next
  show "whileLoop env MAX_ITERATIONS full st =
        (if full \<noteq> [] then full
         else ''Reached maximum number of tool call iterations without a final response.'',
         MAX_ITERATIONS, emit (ResponseEvent full) st)"
    by (rule whileLoop_limit) simp
qed

theorem completeTask_iteration_limit_witness:
  "managerGetAllTools loopingEnv = Inr [(''search'', Tool None JNull)]
   \<and> (\<exists>s'. completeTask loopingEnv ''Find it'' None newService =
          Inr (''Reached maximum number of tool call iterations without a final response.'', 10, s')
        \<and> length (filter isAssistant (messages s')) = 10)
   \<and> messagesCreate answeringEnv (messages newService) = Inr [TextBlock ''Hello.'']
   \<and> toolUsesOf [TextBlock ''Hello.''] = []
   \<and> whileLoop answeringEnv 0 [] newService =
       (''Hello.'', 1, \<lparr>messages = [AssistantMessage ''Hello.'' None], emitted = [ResponseEvent ''Hello.'']\<rparr>)"
proof -
  have tools: "managerGetAllTools loopingEnv = Inr [(''search'', Tool None JNull)]"
    by (simp add: loopingEnv_def)
  have answer: "0 < MAX_ITERATIONS \<and> messagesCreate answeringEnv (messages newService) = Inr [TextBlock ''Hello.'']
      \<and> toolUsesOf [TextBlock ''Hello.''] = []"
    by (simp add: answeringEnv_def MAX_ITERATIONS_def)
  note early = completeTask_iteration_limit
      [where env = answeringEnv and i = 0 and st = newService and full = "[]",
       THEN conjunct2, THEN conjunct2, THEN conjunct2, THEN conjunct1, rule_format, OF answer]
  have "whileLoop answeringEnv 0 [] newService =
       (''Hello.'', 1, \<lparr>messages = [AssistantMessage ''Hello.'' None], emitted = [ResponseEvent ''Hello.'']\<rparr>)"
    unfolding early by (simp add: emit_def addAssistantMessage_def newService_def)
  with tools answer looping_run show ?thesis by blast
qed

section \<open>Properties of the token budget\<close>

lemma bitLength_upper: "n < 2 ^ bitLength n"
proof (induction n rule: bitLength.induct)
  case (1 n)
  show ?case
  proof (cases "n = 0")
    case True
    then show ?thesis by (simp add: bitLength.simps)
  next
    case False
    with 1 have "n div 2 < 2 ^ bitLength (n div 2)" by simp
    then have "n < 2 * 2 ^ bitLength (n div 2)" by arith
    with False show ?thesis by (subst bitLength.simps) simp
  qed
qed

lemma bitLength_lower: "0 < n \<Longrightarrow> 2 ^ (bitLength n - 1) \<le> n"
proof (induction n rule: bitLength.induct)
  case (1 n)
  show ?case
  proof (cases "n div 2 = 0")
    case True
    with "1.prems" have "n = 1" by arith
    then show ?thesis by (simp add: bitLength.simps)
  next
    case False
    with 1 have IH: "2 ^ (bitLength (n div 2) - 1) \<le> n div 2" by simp
    from False have pos: "0 < bitLength (n div 2)" by (subst bitLength.simps) simp
    have "bitLength n = Suc (bitLength (n div 2))"
      using "1.prems" by (subst bitLength.simps) simp
    then have "(2::nat) ^ (bitLength n - 1) = 2 * 2 ^ (bitLength (n div 2) - 1)"
      using pos by (cases "bitLength (n div 2)") simp_all
    also have "\<dots> \<le> 2 * (n div 2)" using IH by simp
    also have "\<dots> \<le> n" by simp
    finally show ?thesis .
  qed
qed

lemma bitLength_le: "n < 2 ^ w \<Longrightarrow> bitLength n \<le> w"
proof (cases "n = 0")
  case True
  then show ?thesis by (simp add: bitLength.simps)
next
  case False
  assume "n < 2 ^ w"
  moreover have "(2::nat) ^ (bitLength n - 1) \<le> n" by (rule bitLength_lower) (use False in simp)
  ultimately have "(2::nat) ^ (bitLength n - 1) < 2 ^ w" by (rule le_less_trans [rotated])
  then have "bitLength n - 1 < w" by (simp only: power_strict_increasing_iff one_less_numeral_iff semiring_norm)
  then show ?thesis by arith
qed

lemma roundToDouble_bounds:
  assumes lo: "n * 2 ^ 53 \<le> N"
    and hi: "N + 2 ^ 48 < (n + 1) * 2 ^ 53"
    and small: "N < 2 ^ 102"
  shows "n * 2 ^ 53 \<le> roundToDouble N \<and> roundToDouble N < (n + 1) * 2 ^ 53"
proof (cases "bitLength N \<le> 53")
  case True
  then show ?thesis using lo hi by (simp add: roundToDouble_def)
next
  case False
  define sh where "sh = bitLength N - 53"
  define P :: nat where "P = 2 ^ sh"
  define K :: nat where "K = 2 ^ (53 - sh)"
  define half :: nat where "half = 2 ^ (sh - 1)"
  define q where "q = N div P"
  define r where "r = N mod P"
  have "bitLength N \<le> 102" using small by (rule bitLength_le)
  with False have sh: "1 \<le> sh" "sh \<le> 49" by (simp_all add: sh_def)
  have PK: "P * K = 2 ^ 53"
    using sh by (simp add: P_def K_def flip: power_add)
  have Ppos: "0 < P" by (simp add: P_def)
  have "P = 2 ^ Suc (sh - 1)" using sh by (simp add: P_def)
  then have Phalf: "P = 2 * half" by (simp add: half_def)
  have "sh - 1 \<le> 48" using sh by simp
  then have "(2::nat) ^ (sh - 1) \<le> 2 ^ 48" by (rule power_increasing) simp
  then have half48: "half \<le> 2 ^ 48" by (simp add: half_def)
  have N: "N = q * P + r" by (simp add: q_def r_def)
  have rP: "r < P" using Ppos by (simp add: r_def)
  have R: "roundToDouble N = (if r < half \<or> (r = half \<and> even q) then q else q + 1) * P"
    using False by (simp add: roundToDouble_def Let_def sh_def P_def half_def q_def r_def)
  have "n * K * P \<le> N" using lo PK by (simp add: mult.assoc mult.commute [of K P])
  then have "n * K \<le> q" using Ppos by (simp add: q_def less_eq_div_iff_mult_less_eq)
  then have "n * K * P \<le> q * P" by (rule mult_le_mono1)
  then have low: "n * 2 ^ 53 \<le> q * P" using PK by (simp add: mult.assoc mult.commute [of K P])
  show ?thesis
  proof (cases "r < half \<or> (r = half \<and> even q)")
    case True
    then have "roundToDouble N = q * P" using R by simp
    moreover have "q * P \<le> N" using N by simp
    ultimately show ?thesis using low hi by simp
  next
    case False
    then have "roundToDouble N = (q + 1) * P" unfolding R by (simp only: if_False)
    then have up: "roundToDouble N = q * P + P" by simp
    from False have "half \<le> r" by auto
    then have "q * P + P \<le> N + half" using N Phalf by simp
    then have "q * P + P \<le> N + 2 ^ 48" using half48 by simp
    then show ?thesis using up low hi by simp
  qed
qed

lemma floorTimes09_eq:
  assumes "x < 2 ^ 49"
  shows "floorTimes09 x = 9 * x div 10"
proof -
  define n where "n = 9 * x div 10"
  define N where "N = x * 8106479329266893"
  have n: "10 * n \<le> 9 * x" "9 * x < 10 * n + 10" by (simp_all add: n_def)
  have x: "x < 562949953421312" using assms by simp
  have lo: "n * 2 ^ 53 \<le> N" using n by (simp add: N_def)
  have hi: "N + 2 ^ 48 < (n + 1) * 2 ^ 53" using n x by (simp add: N_def)
  have small: "N < 2 ^ 102" using x by (simp add: N_def)
  from roundToDouble_bounds [OF lo hi small]
  have "roundToDouble N div 2 ^ 53 = n"
    by (intro div_nat_eqI) (simp_all add: mult.commute)
  then show ?thesis by (simp add: floorTimes09_def N_def n_def)
qed

lemma floor_nine_tenths: "\<lfloor>0.9 * real raw\<rfloor> = int (9 * raw div 10)"
proof -
  have "0.9 * real raw = real (9 * raw) / real 10" by simp
  then show ?thesis by (simp only: floor_divide_of_nat_eq)
qed

lemma margin_strict: "0 < raw \<Longrightarrow> 9 * raw div 10 < (raw::nat)"
  by arith

text \<open>
  C7. For a registry maximum \<open>raw\<close> that is positive (and below \<^verbatim>\<open>2^49\<close>, far above any
  token count), the message manager made by \<^verbatim>\<open>createMessageManager\<close> and the one made
  by the constructor of \<^verbatim>\<open>AnthropicService\<close> get the budget \<^verbatim>\<open>floor(0.9 * raw)\<close>,
  which is strictly below \<open>raw\<close>.
\<close>

theorem budget_with_margin:
  assumes "0 < raw" and "raw < 2 ^ 49"
  shows "(getMaxTokensForModel (toLowerCase (provider config)) (toLowerCase (model config)) = Some raw \<longrightarrow>
            (\<exists>mm. createMessageManager getMaxTokensForModel config = Some mm
                \<and> int (maxTokens mm) = \<lfloor>0.9 * real raw\<rfloor> \<and> maxTokens mm < raw))
       \<and> (getMaxTokens ''anthropic''
              (case modelOption of None \<Rightarrow> ''claude-3-7-sonnet-20250219''
               | Some name \<Rightarrow> if name = [] then ''claude-3-7-sonnet-20250219'' else name) = Some raw \<longrightarrow>
            (\<exists>mm. newAnthropicService getMaxTokens modelOption = Some mm
                \<and> int (maxTokens mm) = \<lfloor>0.9 * real raw\<rfloor> \<and> maxTokens mm < raw))"
proof -
  have eq: "floorTimes09 raw = 9 * raw div 10" using assms(2) by (rule floorTimes09_eq)
  have fl: "int (floorTimes09 raw) = \<lfloor>0.9 * real raw\<rfloor>" by (simp only: eq floor_nine_tenths)
  have lt: "floorTimes09 raw < raw" using assms(1) by (simp only: eq margin_strict)
  show ?thesis
    using fl lt by (auto simp: createMessageManager_def newAnthropicService_def Let_def)
qed

theorem budget_with_margin_witness:
  "(0::nat) < 200000 \<and> (200000::nat) < 2 ^ 49
   \<and> exampleRegistry (toLowerCase ''Anthropic'') (toLowerCase ''Claude-3-7-Sonnet-20250219'') = Some 200000
   \<and> createMessageManager exampleRegistry \<lparr>provider = ''Anthropic'', model = ''Claude-3-7-Sonnet-20250219''\<rparr>
        = Some \<lparr>maxTokens = 180000\<rparr>
   \<and> newAnthropicService exampleRegistry None = Some \<lparr>maxTokens = 180000\<rparr>"
proof -
  have a: "(0::nat) < 200000" and b: "(200000::nat) < 2 ^ 49" by simp_all
  have lower: "toLowerCase ''Anthropic'' = ''anthropic''"
    "toLowerCase ''Claude-3-7-Sonnet-20250219'' = ''claude-3-7-sonnet-20250219''"
    by code_simp+
  have r: "exampleRegistry ''anthropic'' ''claude-3-7-sonnet-20250219'' = Some 200000"
    by (simp add: exampleRegistry_def)
  have f: "\<lfloor>0.9 * real 200000\<rfloor> = 180000" by simp
  note inst = budget_with_margin [OF a b, of exampleRegistry
      "\<lparr>provider = ''Anthropic'', model = ''Claude-3-7-Sonnet-20250219''\<rparr>" exampleRegistry None]
  from inst r lower f show ?thesis by auto
qed

end
